theory Spec2Isabelle
  imports Main "HOL-Library.AList" "HOL-Library.Multiset"
begin

section \<open>caphVSink: a virtual sink that captures every audio source\<close>

text \<open>
  The program (\<^verbatim>\<open>src/caphVSink.py\<close>) drives a PulseAudio server through the
  \<^verbatim>\<open>pulsectl\<close> client library. The classes \<^verbatim>\<open>MyPulse\<close> and \<^verbatim>\<open>Capturer\<close> are embedded
  here function by function; the server they talk to is an explicit state that every
  function takes and, where it issues commands, returns.
\<close>

subsection \<open>Python dictionaries\<close>

text \<open>
  A Python \<^verbatim>\<open>dict\<close> keeps one entry per key, in order of first insertion; storing an
  existing key replaces the value in place. It is an association list maintained by
  \<^const>\<open>AList.update\<close>. \<^verbatim>\<open>dict(pairs)\<close> and a dict comprehension insert the pairs from
  left to right, \<^verbatim>\<open>d.get(k)\<close> is a lookup that answers \<^verbatim>\<open>None\<close> for a missing key,
  \<^verbatim>\<open>d.items()\<close> is the list itself and iterating over \<^verbatim>\<open>d\<close> yields the keys.
\<close>

type_synonym ('k, 'v) dict = "('k \<times> 'v) list"

definition py_dict :: "('k \<times> 'v) list \<Rightarrow> ('k, 'v) dict" where
  "py_dict kvs = foldl (\<lambda>d kv. AList.update (fst kv) (snd kv) d) [] kvs"

definition py_get :: "('k, 'v) dict \<Rightarrow> 'k \<Rightarrow> 'v option" where
  "py_get d k = map_of d k"

definition py_keys :: "('k, 'v) dict \<Rightarrow> 'k list" where
  "py_keys d = map fst d"

subsection \<open>The regular expression of \<^verbatim>\<open>module_items\<close>\<close>

text \<open>
  \<^verbatim>\<open>re.findall(r'([^ ]*?)=([^ ]*)', s)\<close>. At a position the lazy group takes as few
  characters other than the space as possible up to an \<^verbatim>\<open>=\<close>, so it stops at the first
  \<^verbatim>\<open>=\<close> and fails when a space or the end of the string comes first
  (\<open>match_key\<close>); the greedy group then takes every character up to the next space
  (\<open>re_match\<close>). \<^verbatim>\<open>findall\<close> scans from left to right: after a match it goes on
  behind the match, after a failure one character further.
\<close>

fun match_key :: "string \<Rightarrow> (string \<times> string) option" where
  "match_key [] = None"
| "match_key (c # cs) =
     (if c = CHR ''='' then Some ([], cs)
      else if c = CHR '' '' then None
      else (case match_key cs of None \<Rightarrow> None | Some (k, r) \<Rightarrow> Some (c # k, r)))"

definition re_match :: "string \<Rightarrow> ((string \<times> string) \<times> string) option" where
  "re_match s =
     (case match_key s of
        None \<Rightarrow> None
      | Some (k, r) \<Rightarrow>
          Some ((k, takeWhile (\<lambda>c. c \<noteq> CHR '' '') r), dropWhile (\<lambda>c. c \<noteq> CHR '' '') r))"

lemma match_key_shorter: "match_key s = Some (k, r) \<Longrightarrow> length r < length s"
  by (induction s arbitrary: k r) (auto split: if_splits option.splits)

lemma re_match_shorter: "re_match s = Some (kv, r) \<Longrightarrow> length r < length s"
  unfolding re_match_def
  by (auto split: option.splits dest!: match_key_shorter
        intro: le_less_trans [OF length_dropWhile_le])

function findall :: "string \<Rightarrow> (string \<times> string) list" where
  "findall [] = []"
| "findall (c # cs) =
     (case re_match (c # cs) of
        Some (kv, rest) \<Rightarrow> kv # findall rest
      | None \<Rightarrow> findall cs)"
  by pat_completeness auto
termination
  by (relation "measure length") (auto dest: re_match_shorter)

subsection \<open>The audio server\<close>

text \<open>
  What \<^verbatim>\<open>pulsectl\<close> reports (spec, section 6): a module has a numeric index, a kind
  tag (\<^verbatim>\<open>mod.name\<close>) and its raw argument string; a source has a name and an index; a
  source output (a stream reading from a source) has a display name and the index of
  the source it reads. The server's indices are unsigned, hence \<^typ>\<open>nat\<close>. The
  argument of a module is a string, as the specification has it; a module for which
  the library reports no argument string at all is not part of this model.
\<close>

record pa_module =
  mod_index :: nat
  mod_name :: string
  mod_argument :: string

record pa_source =
  src_index :: nat
  src_name :: string

record pa_source_output =
  so_index :: nat
  so_name :: string
  so_source :: nat

record pulse =
  modules :: "pa_module list"
  sources :: "pa_source list"
  source_outputs :: "pa_source_output list"
  next_index :: nat

definition module_list :: "pulse \<Rightarrow> pa_module list" where
  "module_list st = modules st"

definition source_list :: "pulse \<Rightarrow> pa_source list" where
  "source_list st = sources st"

definition source_output_list :: "pulse \<Rightarrow> pa_source_output list" where
  "source_output_list st = source_outputs st"

text \<open>
  Modelled from the spec: the server's command interface (sections 4.1 and 6), which
  belongs to the audio server and not to this repository. \<^verbatim>\<open>module_load\<close> registers a
  module of the given kind with the given argument string at the end of the module
  table and returns the index the server assigns, which no earlier module has had;
  \<^verbatim>\<open>module_unload\<close> removes the module that has the given index. The server is taken
  to accept every command, and the listings of sources and source outputs are what the
  server reports, left as they are by both commands.
\<close>

definition module_load :: "pulse \<Rightarrow> string \<Rightarrow> string \<Rightarrow> nat \<times> pulse" where
  "module_load st name args =
     (next_index st,
      st\<lparr>modules := modules st @ [\<lparr>mod_index = next_index st, mod_name = name, mod_argument = args\<rparr>],
         next_index := Suc (next_index st)\<rparr>)"

definition module_unload :: "pulse \<Rightarrow> nat \<Rightarrow> pulse" where
  "module_unload st i = st\<lparr>modules := filter (\<lambda>m. mod_index m \<noteq> i) (modules st)\<rparr>"

subsection \<open>\<^verbatim>\<open>MyPulse\<close>: the indexer\<close>

definition module_items :: "pulse \<Rightarrow> string \<Rightarrow> ((string, string) dict \<times> pa_module) list" where
  "module_items st name =
     map (\<lambda>m. (py_dict (findall (mod_argument m)), m))
       (filter (\<lambda>m. mod_name m = name) (module_list st))"

text \<open>
  \<^verbatim>\<open>e.get('sink_name')\<close> is \<^verbatim>\<open>None\<close> when the key is missing, so the keys of the three
  indexes are optional strings.
\<close>

definition vsink_dict :: "pulse \<Rightarrow> (string option, pa_module) dict" where
  "vsink_dict st =
     py_dict (map (\<lambda>(e, m). (py_get e ''sink_name'', m)) (module_items st ''module-null-sink''))"

definition loopback_dict :: "pulse \<Rightarrow> (string option \<times> string option, pa_module) dict" where
  "loopback_dict st =
     py_dict (map (\<lambda>(e, m). ((py_get e ''source'', py_get e ''sink''), m))
       (module_items st ''module-loopback''))"

definition vsource_dict :: "pulse \<Rightarrow> (string option, pa_module) dict" where
  "vsource_dict st =
     py_dict (map (\<lambda>(e, m). (py_get e ''source_name'', m)) (module_items st ''module-null-source''))"

subsection \<open>\<^verbatim>\<open>MyPulse\<close>: the router\<close>

text \<open>\<open>do_vsink_add\<close> and \<open>do_loopback_add\<close> are \<^verbatim>\<open>_vsink_add\<close> and \<^verbatim>\<open>_loopback_add\<close>.\<close>

definition do_vsink_add :: "pulse \<Rightarrow> string \<Rightarrow> nat \<times> pulse" where
  "do_vsink_add st name =
     module_load st ''module-null-sink''
       (''sink_name='' @ name @ '' sink_properties=device.description='' @ name)"

definition vsink_add :: "pulse \<Rightarrow> string \<Rightarrow> nat \<times> pulse" where
  "vsink_add st name =
     (case py_get (vsink_dict st) (Some name) of
        Some curr_mod \<Rightarrow> (mod_index curr_mod, st)
      | None \<Rightarrow> do_vsink_add st name)"

definition do_loopback_add :: "pulse \<Rightarrow> string \<Rightarrow> string \<Rightarrow> nat \<times> pulse" where
  "do_loopback_add st source sink =
     module_load st ''module-loopback'' (''source='' @ source @ '' sink='' @ sink)"

definition loopback_add :: "pulse \<Rightarrow> string \<Rightarrow> string \<Rightarrow> nat \<times> pulse" where
  "loopback_add st source sink =
     (case py_get (loopback_dict st) (Some source, Some sink) of
        Some curr_mod \<Rightarrow> (mod_index curr_mod, st)
      | None \<Rightarrow> do_loopback_add st source sink)"

text \<open>
  The loops below run over a listing taken before the first command is sent; each
  iteration may unload one module.
\<close>

definition vsink_disconnect :: "pulse \<Rightarrow> string \<Rightarrow> pulse" where
  "vsink_disconnect st sink =
     foldl (\<lambda>s ((src, tgt), m). if tgt = Some sink then module_unload s (mod_index m) else s)
       st (loopback_dict st)"

definition vsink_remove :: "pulse \<Rightarrow> string \<Rightarrow> pulse" where
  "vsink_remove st name =
     (let st1 = vsink_disconnect st name in
      foldl (\<lambda>s (e, m). if py_get e ''sink_name'' = Some name then module_unload s (mod_index m) else s)
        st1 (module_items st1 ''module-null-sink''))"

definition loopback_remove :: "pulse \<Rightarrow> string \<Rightarrow> string \<Rightarrow> pulse" where
  "loopback_remove st source sink =
     foldl (\<lambda>s ((src, tgt), m).
              if (src, tgt) = (Some source, Some sink) then module_unload s (mod_index m) else s)
       st (loopback_dict st)"

definition vsink_sources :: "pulse \<Rightarrow> string \<Rightarrow> (string option, pa_module) dict" where
  "vsink_sources st name =
     py_dict (map (\<lambda>((src, tgt), m). (src, m))
       (filter (\<lambda>((src, tgt), m). tgt = Some name) (loopback_dict st)))"

text \<open>
  \<^verbatim>\<open>vsink_source\<close> answers the index of the first source named \<^verbatim>\<open><name>.monitor\<close>, or
  \<^verbatim>\<open>-1\<close>: an \<^typ>\<open>int\<close>, since no index of the server is negative.
\<close>

definition vsink_source :: "pulse \<Rightarrow> string \<Rightarrow> int" where
  "vsink_source st name =
     (case find (\<lambda>src. src_name src = name @ ''.monitor'') (source_list st) of
        Some src \<Rightarrow> int (src_index src)
      | None \<Rightarrow> - 1)"

definition is_pavucontrol :: "pa_source_output \<Rightarrow> bool" where
  "is_pavucontrol c = (so_name c = ''Peak detect'')"

text \<open>
  \<^verbatim>\<open>apps\<close> is a Python set of stream objects, which compare by identity: it holds every
  stream that passes the test, and the order in which the comprehension visits them is
  not fixed by the language. The model visits them in the order of the listing; the
  theorems below speak of the keys of the result, which do not depend on that order.
\<close>

definition vsink_apps :: "pulse \<Rightarrow> string \<Rightarrow> (string, pa_source_output) dict" where
  "vsink_apps st name =
     (let idx = vsink_source st name;
          apps = filter (\<lambda>c. int (so_source c) = idx) (source_output_list st)
      in py_dict (map (\<lambda>c. (so_name c, c)) (filter (\<lambda>c. \<not> is_pavucontrol c) apps)))"

definition vsink_safe_remove :: "pulse \<Rightarrow> string \<Rightarrow> pulse \<times> (string, pa_source_output) dict" where
  "vsink_safe_remove st name =
     (let apps = vsink_apps st name in
      (if apps = [] then vsink_remove st name else st, apps))"

subsection \<open>\<^verbatim>\<open>Capturer\<close>\<close>

definition capturer_connect :: "pulse \<Rightarrow> string \<Rightarrow> pulse" where
  "capturer_connect st name =
     foldl (\<lambda>s src. if src_name src \<noteq> name @ ''.monitor''
                     then snd (loopback_add s (src_name src) name) else s)
       st (source_list st)"

text \<open>
  A \<^verbatim>\<open>Capturer\<close> is a \<^verbatim>\<open>MyPulse\<close> connection with the previous snapshot in
  \<^verbatim>\<open>self.srcs\<close> and \<^verbatim>\<open>self.apps\<close>; what it prints is collected line by line. A Python
  set of names is a list without repetitions, \<^verbatim>\<open>A - B\<close> keeps the elements of \<^verbatim>\<open>A\<close>
  that are not in \<^verbatim>\<open>B\<close>, and a loop over a set visits each element once, in an order
  the language does not fix.
\<close>

record capturer =
  server :: pulse
  srcs :: "string option list"
  apps :: "string list"
  stdout :: "string list"

definition py_set :: "'a list \<Rightarrow> 'a list" where
  "py_set xs = remdups xs"

definition set_minus :: "'a list \<Rightarrow> 'a list \<Rightarrow> 'a list" where
  "set_minus xs ys = filter (\<lambda>x. x \<notin> set ys) xs"

text \<open>\<^verbatim>\<open>f'{src}'\<close> for a name that may be \<^verbatim>\<open>None\<close>.\<close>

definition py_str :: "string option \<Rightarrow> string" where
  "py_str x = (case x of None \<Rightarrow> ''None'' | Some s \<Rightarrow> s)"

definition capturer_deltaprint ::
  "capturer \<Rightarrow> string option list \<Rightarrow> string list \<Rightarrow> string \<Rightarrow> capturer" where
  "capturer_deltaprint c old_srcs old_apps prefix =
     c\<lparr>stdout := stdout c
          @ map (\<lambda>src. prefix @ ''Connected source    '' @ py_str src) (set_minus (srcs c) old_srcs)
          @ map (\<lambda>src. prefix @ ''Disconnected source '' @ py_str src) (set_minus old_srcs (srcs c))
          @ map (\<lambda>app. prefix @ ''Connected app       '' @ app) (set_minus (apps c) old_apps)
          @ map (\<lambda>app. prefix @ ''Disconnected app    '' @ app) (set_minus old_apps (apps c))\<rparr>"

definition capturer_refresh :: "capturer \<Rightarrow> string \<Rightarrow> capturer" where
  "capturer_refresh c name =
     (let old_srcs = srcs c;
          old_apps = apps c;
          st = capturer_connect (server c) name;
          c1 = c\<lparr>server := st\<rparr>;
          c2 = c1\<lparr>srcs := py_set (py_keys (vsink_sources st name))\<rparr>;
          c3 = c2\<lparr>apps := py_set (py_keys (vsink_apps st name))\<rparr>
      in capturer_deltaprint c3 old_srcs old_apps ''  '')"

subsection \<open>Vocabulary of the properties\<close>

text \<open>
  An argument string read as a sequence of tokens: the string is cut at every
  separator character; a token that holds an \<^verbatim>\<open>=\<close> is a key (up to the first \<^verbatim>\<open>=\<close>)
  and a value (behind it), any other token says nothing. This is the reading the
  specification gives of \<open>findall\<close>, with the separators left open: the space alone
  (\<open>is_space\<close>), or every whitespace character (\<open>is_whitespace\<close>, the characters
  Python's \<^verbatim>\<open>str.split\<close> cuts at).
\<close>

fun split_on :: "(char \<Rightarrow> bool) \<Rightarrow> string \<Rightarrow> string list" where
  "split_on sep [] = [[]]"
| "split_on sep (c # cs) =
     (if sep c then [] # split_on sep cs
      else (case split_on sep cs of [] \<Rightarrow> [[c]] | t # ts \<Rightarrow> (c # t) # ts))"

definition token_item :: "string \<Rightarrow> (string \<times> string) option" where
  "token_item t =
     (if CHR ''='' \<in> set t
      then Some (takeWhile (\<lambda>c. c \<noteq> CHR ''='') t, tl (dropWhile (\<lambda>c. c \<noteq> CHR ''='') t))
      else None)"

definition token_items_on :: "(char \<Rightarrow> bool) \<Rightarrow> string \<Rightarrow> (string \<times> string) list" where
  "token_items_on sep s = List.map_filter token_item (split_on sep s)"

definition is_space :: "char \<Rightarrow> bool" where
  "is_space c = (c = CHR '' '')"

definition is_whitespace :: "char \<Rightarrow> bool" where
  "is_whitespace c = (c \<in> set [CHR '' '', CHR 0x09, CHR 0x0A, CHR 0x0B, CHR 0x0C, CHR 0x0D])"

text \<open>
  What the indexer sees of a module: a null sink that carries a name, a loopback route
  between a source and a sink, a loopback route into a sink.
\<close>

definition parsed_args :: "pa_module \<Rightarrow> (string, string) dict" where
  "parsed_args m = py_dict (findall (mod_argument m))"

definition is_vsink :: "string \<Rightarrow> pa_module \<Rightarrow> bool" where
  "is_vsink name m =
     (mod_name m = ''module-null-sink'' \<and> py_get (parsed_args m) ''sink_name'' = Some name)"

definition route_pair :: "pa_module \<Rightarrow> string option \<times> string option" where
  "route_pair m = (py_get (parsed_args m) ''source'', py_get (parsed_args m) ''sink'')"

definition is_loopback :: "pa_module \<Rightarrow> bool" where
  "is_loopback m = (mod_name m = ''module-loopback'')"

definition is_route_into :: "string \<Rightarrow> pa_module \<Rightarrow> bool" where
  "is_route_into sink m = (is_loopback m \<and> snd (route_pair m) = Some sink)"

definition is_route :: "string \<Rightarrow> string \<Rightarrow> pa_module \<Rightarrow> bool" where
  "is_route source sink m = (is_loopback m \<and> route_pair m = (Some source, Some sink))"

text \<open>How many modules the indexer takes for a given sink, or for a given route.\<close>

definition count_vsinks :: "pulse \<Rightarrow> string \<Rightarrow> nat" where
  "count_vsinks st name = length (filter (is_vsink name) (modules st))"

definition count_routes :: "pulse \<Rightarrow> string \<Rightarrow> string \<Rightarrow> nat" where
  "count_routes st source sink = length (filter (is_route source sink) (modules st))"


text \<open>The test of \<^verbatim>\<open>vsink_apps\<close>: the stream reads from the index \<^verbatim>\<open>vsink_source\<close> answers.\<close>

definition reads_monitor :: "pulse \<Rightarrow> string \<Rightarrow> pa_source_output \<Rightarrow> bool" where
  "reads_monitor st name c = (int (so_source c) = vsink_source st name)"

text \<open>
  What \<open>do_loopback_add\<close> loads for a source and a sink, the modules the connect pass
  may load for a sink (one for a listed source other than the sink's monitor), and the
  argument string a route from the sink's monitor into the sink would have.
\<close>

definition route_module :: "nat \<Rightarrow> string \<Rightarrow> string \<Rightarrow> pa_module" where
  "route_module i source sink =
     \<lparr>mod_index = i, mod_name = ''module-loopback'',
      mod_argument = ''source='' @ source @ '' sink='' @ sink\<rparr>"

definition created_by_connect :: "pulse \<Rightarrow> string \<Rightarrow> pa_module \<Rightarrow> bool" where
  "created_by_connect st name m =
     (\<exists>src \<in> set (source_list st).
        src_name src \<noteq> name @ ''.monitor'' \<and>
        m = route_module (mod_index m) (src_name src) name)"

definition self_loop_argument :: "string \<Rightarrow> string" where
  "self_loop_argument name = ''source='' @ (name @ ''.monitor'') @ '' sink='' @ name"

text \<open>
  Standing conditions on a server state. The server gives every module an index of its
  own (\<open>distinct_indices\<close>), below the next index it will assign (\<open>wf_pulse\<close>). The
  routes into a sink are unique when no two loopback modules connect the same source to
  that sink.
\<close>

definition distinct_indices :: "pulse \<Rightarrow> bool" where
  "distinct_indices st = distinct (map mod_index (modules st))"

definition wf_pulse :: "pulse \<Rightarrow> bool" where
  "wf_pulse st =
     (distinct_indices st \<and> list_all (\<lambda>m. mod_index m < next_index st) (modules st))"

definition unique_routes_into :: "pulse \<Rightarrow> string \<Rightarrow> bool" where
  "unique_routes_into st sink =
     distinct (map route_pair (filter (is_route_into sink) (modules st)))"

definition no_space :: "string \<Rightarrow> bool" where
  "no_space s = (CHR '' '' \<notin> set s)"

subsection \<open>Example server states\<close>

text \<open>A server without modules, one with the sink \<^verbatim>\<open>X\<close>, one with the route from \<^verbatim>\<open>mic\<close> to \<^verbatim>\<open>X\<close>.\<close>

definition empty_server :: pulse where
  "empty_server = \<lparr>modules = [], sources = [], source_outputs = [], next_index = 0\<rparr>"

definition one_sink_server :: pulse where
  "one_sink_server =
     \<lparr>modules = [\<lparr>mod_index = 7, mod_name = ''module-null-sink'',
                  mod_argument = ''sink_name=X sink_properties=device.description=X''\<rparr>],
      sources = [], source_outputs = [], next_index = 8\<rparr>"

definition one_route_server :: pulse where
  "one_route_server =
     \<lparr>modules = [\<lparr>mod_index = 3, mod_name = ''module-loopback'',
                  mod_argument = ''source=mic sink=X''\<rparr>],
      sources = [], source_outputs = [], next_index = 4\<rparr>"

text \<open>A loopback module whose two arguments are separated by a tabulator.\<close>

definition tab_module :: pa_module where
  "tab_module =
     \<lparr>mod_index = 0, mod_name = ''module-loopback'',
      mod_argument = ''source=mic'' @ [CHR 0x09] @ ''sink=X''\<rparr>"

definition tab_server :: pulse where
  "tab_server = \<lparr>modules = [tab_module], sources = [], source_outputs = [], next_index = 1\<rparr>"

text \<open>
  The scenarios of the specification: the sink \<^verbatim>\<open>X\<close> with its monitor, the source
  \<^verbatim>\<open>mic\<close> routed into \<^verbatim>\<open>X\<close> and into another sink \<^verbatim>\<open>Y\<close>; idle, or with a recorder
  reading the monitor; and the same server after somebody has loaded the route from
  \<^verbatim>\<open>mic\<close> to \<^verbatim>\<open>X\<close> a second time.
\<close>

definition mic_source :: pa_source where
  "mic_source = \<lparr>src_index = 0, src_name = ''mic''\<rparr>"

definition monitor_source :: pa_source where
  "monitor_source = \<lparr>src_index = 1, src_name = ''X.monitor''\<rparr>"

definition sink_X :: pa_module where
  "sink_X = \<lparr>mod_index = 0, mod_name = ''module-null-sink'',
     mod_argument = ''sink_name=X sink_properties=device.description=X''\<rparr>"

definition route_mic_X :: pa_module where
  "route_mic_X = \<lparr>mod_index = 1, mod_name = ''module-loopback'', mod_argument = ''source=mic sink=X''\<rparr>"

definition route_mic_Y :: pa_module where
  "route_mic_Y = \<lparr>mod_index = 2, mod_name = ''module-loopback'', mod_argument = ''source=mic sink=Y''\<rparr>"

definition route_mic_X_again :: pa_module where
  "route_mic_X_again =
     \<lparr>mod_index = 3, mod_name = ''module-loopback'', mod_argument = ''source=mic sink=X''\<rparr>"

definition recorder :: pa_source_output where
  "recorder = \<lparr>so_index = 0, so_name = ''Recorder'', so_source = 1\<rparr>"

definition idle_server :: pulse where
  "idle_server =
     \<lparr>modules = [sink_X, route_mic_X, route_mic_Y], sources = [mic_source, monitor_source],
      source_outputs = [], next_index = 3\<rparr>"

definition busy_server :: pulse where
  "busy_server = idle_server\<lparr>source_outputs := [recorder]\<rparr>"

definition twice_routed_server :: pulse where
  "twice_routed_server =
     \<lparr>modules = [sink_X, route_mic_X, route_mic_Y, route_mic_X_again],
      sources = [mic_source, monitor_source], source_outputs = [], next_index = 4\<rparr>"

text \<open>
  Streams: the level meter of the volume control and a player that reads the
  microphone beside the recorder, a second recorder of the same name, and a server on
  which the sink \<^verbatim>\<open>X\<close> is gone.
\<close>

definition peak_detect :: pa_source_output where
  "peak_detect = \<lparr>so_index = 1, so_name = ''Peak detect'', so_source = 1\<rparr>"

definition player :: pa_source_output where
  "player = \<lparr>so_index = 2, so_name = ''Player'', so_source = 0\<rparr>"

definition recorder_again :: pa_source_output where
  "recorder_again = \<lparr>so_index = 3, so_name = ''Recorder'', so_source = 1\<rparr>"

definition metered_server :: pulse where
  "metered_server = idle_server\<lparr>source_outputs := [recorder, peak_detect, player]\<rparr>"

definition two_recorders_server :: pulse where
  "two_recorders_server = idle_server\<lparr>source_outputs := [recorder, recorder_again]\<rparr>"


text \<open>
  The server right after the sink \<^verbatim>\<open>X\<close> has been created, and a capturer whose current
  snapshot has the sources \<^verbatim>\<open>mic\<close> and \<^verbatim>\<open>line\<close> and the consumer \<^verbatim>\<open>Recorder\<close>.
\<close>

definition fresh_server :: pulse where
  "fresh_server =
     \<lparr>modules = [sink_X], sources = [mic_source, monitor_source], source_outputs = [],
      next_index = 1\<rparr>"

definition snapshot_capturer :: capturer where
  "snapshot_capturer =
     \<lparr>server = idle_server, srcs = [Some ''mic'', Some ''line''], apps = [''Recorder''], stdout = []\<rparr>"


definition spaced_source :: pa_source where
  "spaced_source = \<lparr>src_index = 2, src_name = ''X.monitor rate=1''\<rparr>"

definition spaced_server :: pulse where
  "spaced_server =
     \<lparr>modules = [sink_X], sources = [spaced_source], source_outputs = [], next_index = 1\<rparr>"

section \<open>Properties\<close>

subsection \<open>Dictionaries\<close>

lemma py_dict_Nil: "py_dict [] = []"
  by (simp add: py_dict_def)

lemma py_dict_snoc: "py_dict (kvs @ [kv]) = AList.update (fst kv) (snd kv) (py_dict kvs)"
  by (simp add: py_dict_def)

lemma py_dict_keys_distinct: "distinct (map fst (py_dict kvs))"
  by (induction kvs rule: rev_induct) (simp_all add: py_dict_Nil py_dict_snoc distinct_update)

lemma py_dict_keys_set: "fst ` set (py_dict kvs) = fst ` set kvs"
  by (induction kvs rule: rev_induct) (auto simp: py_dict_Nil py_dict_snoc dom_update)

lemma py_get_py_dict: "py_get (py_dict kvs) k = map_of (rev kvs) k"
  by (induction kvs rule: rev_induct) (simp_all add: py_dict_Nil py_dict_snoc py_get_def update_conv')

lemma update_fresh: "k \<notin> fst ` set al \<Longrightarrow> AList.update k v al = al @ [(k, v)]"
  by (induction al) auto

lemma py_dict_distinct_id: "distinct (map fst kvs) \<Longrightarrow> py_dict kvs = kvs"
  by (induction kvs rule: rev_induct) (auto simp: py_dict_Nil py_dict_snoc update_fresh)

lemma py_dict_eq_Nil_iff: "py_dict kvs = [] \<longleftrightarrow> kvs = []"
  by (cases kvs rule: rev_cases) (simp_all add: py_dict_Nil py_dict_snoc)

lemma set_update_subset: "set (AList.update k v al) \<subseteq> insert (k, v) (set al)"
  by (induction al) auto

lemma py_dict_subset: "set (py_dict kvs) \<subseteq> set kvs"
proof (induction kvs rule: rev_induct)
  case Nil
  show ?case by (simp add: py_dict_Nil)
next
  case (snoc kv kvs)
  have "set (py_dict (kvs @ [kv])) \<subseteq> insert kv (set (py_dict kvs))"
    using set_update_subset [of "fst kv" "snd kv" "py_dict kvs"] by (simp add: py_dict_snoc)
  with snoc show ?case by auto
qed

subsection \<open>The parser\<close>

lemma findall_unfold:
  "findall s =
     (case re_match s of
        Some (kv, rest) \<Rightarrow> kv # findall rest
      | None \<Rightarrow> (case s of [] \<Rightarrow> [] | c # cs \<Rightarrow> findall cs))"
  by (cases s) (auto simp: re_match_def split: option.splits)

lemma match_key_no_eq: "CHR ''='' \<notin> set t \<Longrightarrow> match_key (t @ CHR '' '' # r) = None"
  by (induction t) auto

lemma match_key_no_eq_end: "CHR ''='' \<notin> set t \<Longrightarrow> match_key t = None"
  by (induction t) auto

lemma match_key_token:
  "CHR ''='' \<notin> set k \<Longrightarrow> CHR '' '' \<notin> set k \<Longrightarrow> match_key (k @ CHR ''='' # r) = Some (k, r)"
  by (induction k) auto

lemma findall_skip: "CHR ''='' \<notin> set t \<Longrightarrow> findall (t @ CHR '' '' # r) = findall r"
  by (induction t) (auto simp: re_match_def match_key_no_eq)

lemma findall_none: "CHR ''='' \<notin> set t \<Longrightarrow> findall t = []"
  by (induction t) (auto simp: re_match_def match_key_no_eq_end)

lemma findall_space: "findall (CHR '' '' # r) = findall r"
  by (simp add: re_match_def)

lemma takeWhile_token:
  "CHR '' '' \<notin> set v \<Longrightarrow> takeWhile (\<lambda>c. c \<noteq> CHR '' '') (v @ CHR '' '' # r) = v"
  by (induction v) auto

lemma dropWhile_token:
  "CHR '' '' \<notin> set v \<Longrightarrow> dropWhile (\<lambda>c. c \<noteq> CHR '' '') (v @ CHR '' '' # r) = CHR '' '' # r"
  by (induction v) auto

lemma takeWhile_token_end:
  "CHR '' '' \<notin> set v \<Longrightarrow> takeWhile (\<lambda>c. c \<noteq> CHR '' '') v = v"
  by (induction v) auto

lemma dropWhile_token_end:
  "CHR '' '' \<notin> set v \<Longrightarrow> dropWhile (\<lambda>c. c \<noteq> CHR '' '') v = []"
  by (induction v) auto

lemma findall_item:
  assumes "CHR ''='' \<notin> set k" "CHR '' '' \<notin> set k" "CHR '' '' \<notin> set v"
  shows "findall (k @ CHR ''='' # v @ CHR '' '' # r) = (k, v) # findall r"
proof -
  have "re_match (k @ CHR ''='' # v @ CHR '' '' # r) = Some ((k, v), CHR '' '' # r)"
    using assms by (simp add: re_match_def match_key_token takeWhile_token dropWhile_token)
  then show ?thesis
    by (subst findall_unfold) (simp add: findall_space del: findall.simps)
qed

lemma findall_item_end:
  assumes "CHR ''='' \<notin> set k" "CHR '' '' \<notin> set k" "CHR '' '' \<notin> set v"
  shows "findall (k @ CHR ''='' # v) = [(k, v)]"
proof -
  have "re_match (k @ CHR ''='' # v) = Some ((k, v), [])"
    using assms by (simp add: re_match_def match_key_token takeWhile_token_end dropWhile_token_end)
  then show ?thesis
    by (subst findall_unfold) simp
qed

lemma split_on_not_Nil: "split_on sep s \<noteq> []"
  by (induction s) (auto split: list.splits)

lemma split_on_token_end: "CHR '' '' \<notin> set t \<Longrightarrow> split_on is_space t = [t]"
  by (induction t) (auto simp: is_space_def)

lemma split_on_token:
  "CHR '' '' \<notin> set t \<Longrightarrow> split_on is_space (t @ CHR '' '' # r) = t # split_on is_space r"
  by (induction t) (auto simp: is_space_def)

lemma token_split:
  "CHR ''='' \<in> set t \<Longrightarrow>
   t = takeWhile (\<lambda>c. c \<noteq> CHR ''='') t @ CHR ''='' # tl (dropWhile (\<lambda>c. c \<noteq> CHR ''='') t)"
  by (induction t) auto

lemma token_item_parts:
  assumes "token_item t = Some (k, v)"
  shows "t = k @ CHR ''='' # v \<and> CHR ''='' \<notin> set k"
proof -
  from assms have eq: "CHR ''='' \<in> set t"
    and k: "k = takeWhile (\<lambda>c. c \<noteq> CHR ''='') t"
    and v: "v = tl (dropWhile (\<lambda>c. c \<noteq> CHR ''='') t)"
    by (auto simp: token_item_def split: if_splits)
  have "CHR ''='' \<notin> set k"
    unfolding k by (auto dest: set_takeWhileD)
  with token_split [OF eq] k v show ?thesis by simp
qed

lemma findall_token_end:
  assumes "CHR '' '' \<notin> set t"
  shows "findall t = (case token_item t of None \<Rightarrow> [] | Some kv \<Rightarrow> [kv])"
proof (cases "token_item t")
  case None
  then have "CHR ''='' \<notin> set t" by (simp add: token_item_def split: if_splits)
  then show ?thesis using None by (simp add: findall_none)
next
  case (Some kv)
  obtain k v where kv: "kv = (k, v)" by (cases kv)
  from token_item_parts [OF Some [unfolded kv]] assms
  have "findall t = [(k, v)]" by (auto intro: findall_item_end)
  then show ?thesis using Some kv by simp
qed

lemma findall_token:
  assumes "CHR '' '' \<notin> set t"
  shows "findall (t @ CHR '' '' # r) =
    (case token_item t of None \<Rightarrow> findall r | Some kv \<Rightarrow> kv # findall r)"
proof (cases "token_item t")
  case None
  then have "CHR ''='' \<notin> set t" by (simp add: token_item_def split: if_splits)
  then show ?thesis using None by (simp add: findall_skip)
next
  case (Some kv)
  obtain k v where kv: "kv = (k, v)" by (cases kv)
  from token_item_parts [OF Some [unfolded kv]] assms
  have "findall (t @ CHR '' '' # r) = (k, v) # findall r"
    using findall_item [of k v r] by auto
  then show ?thesis using Some kv by simp
qed

lemma findall_token_items: "findall s = token_items_on is_space s"
proof (induction s rule: length_induct)
  case (1 s)
  show ?case
  proof (cases "CHR '' '' \<in> set s")
    case False
    then show ?thesis
      by (simp add: findall_token_end split_on_token_end token_items_on_def split: option.splits)
  next
    case True
    then obtain t r where s: "s = t @ CHR '' '' # r" and t: "CHR '' '' \<notin> set t"
      by (auto dest: split_list_first)
    have "length r < length s" by (simp add: s)
    with 1 have IH: "findall r = token_items_on is_space r" by blast
    have "findall (t @ CHR '' '' # r) = token_items_on is_space (t @ CHR '' '' # r)"
      using t IH
      by (simp add: findall_token split_on_token token_items_on_def split: option.splits)
    then show ?thesis by (simp add: s)
  qed
qed

subsection \<open>C8: the argument parser\<close>

text \<open>
  C8 (as amended). \<open>module_items\<close> reads the argument string of every module of the
  requested kind as tokens separated by the space character, and by no other whitespace
  character: the pairs it finds are exactly the tokens that hold an \<^verbatim>\<open>=\<close>, cut at
  their first \<^verbatim>\<open>=\<close>, and every other token is passed over. A lookup in the resulting
  dictionary answers the value of the last token with that key, and \<open>None\<close> exactly when
  no token has the key. The function is total: there is no argument string on which
  it fails.
\<close>

theorem module_items_space_tokens:
  "module_items st name =
     map (\<lambda>m. (py_dict (token_items_on is_space (mod_argument m)), m))
       (filter (\<lambda>m. mod_name m = name) (module_list st))
   \<and> py_get (py_dict (token_items_on is_space s)) k = map_of (rev (token_items_on is_space s)) k
   \<and> (py_get (py_dict (token_items_on is_space s)) k = None)
       = (k \<notin> fst ` set (token_items_on is_space s))"
  by (simp add: module_items_def findall_token_items py_get_py_dict map_of_eq_None_iff)

text \<open>
  C8 as stated fails for whitespace other than the space. In the argument string
  \<^verbatim>\<open>source=mic<TAB>sink=X\<close> the whitespace-separated tokens give the key \<^verbatim>\<open>sink\<close> the
  value \<^verbatim>\<open>X\<close>, but \<open>module_items\<close> finds the single key \<^verbatim>\<open>source\<close> and no key
  \<^verbatim>\<open>sink\<close>.
\<close>

theorem module_items_tab_counterexample:
  "map (\<lambda>(e, m). py_get e ''sink'') (module_items tab_server ''module-loopback'') = [None]
   \<and> map_of (token_items_on is_whitespace (mod_argument tab_module)) ''sink'' = Some ''X''"
  by code_simp

subsection \<open>The indexes\<close>

lemma py_get_dict_None_iff: "py_get (py_dict kvs) k = None \<longleftrightarrow> k \<notin> fst ` set kvs"
  by (simp add: py_get_py_dict map_of_eq_None_iff)

lemma py_get_dict_SomeD: "py_get (py_dict kvs) k = Some v \<Longrightarrow> (k, v) \<in> set kvs"
  by (auto simp: py_get_py_dict dest: map_of_SomeD)

lemma py_get_dict_snoc: "py_get (py_dict (kvs @ [(k, v)])) k = Some v"
  by (simp add: py_get_py_dict)

lemma findall_vsink_args:
  assumes "no_space name"
  shows "findall (''sink_name='' @ name @ '' sink_properties=device.description='' @ name) =
    [(''sink_name'', name), (''sink_properties'', ''device.description='' @ name)]"
proof -
  have 1: "findall (''sink_properties'' @ CHR ''='' # (''device.description='' @ name)) =
      [(''sink_properties'', ''device.description='' @ name)]"
    using assms by (intro findall_item_end) (auto simp: no_space_def)
  have 2: "findall (''sink_name'' @ CHR ''='' # name @ CHR '' '' #
        (''sink_properties'' @ CHR ''='' # (''device.description='' @ name))) =
      (''sink_name'', name) #
        findall (''sink_properties'' @ CHR ''='' # (''device.description='' @ name))"
    using assms by (intro findall_item) (auto simp: no_space_def)
  show ?thesis using 2 unfolding 1 by simp
qed

lemma findall_loopback_args:
  assumes "no_space source" "no_space sink"
  shows "findall (''source='' @ source @ '' sink='' @ sink) = [(''source'', source), (''sink'', sink)]"
proof -
  have 1: "findall (''sink'' @ CHR ''='' # sink) = [(''sink'', sink)]"
    using assms by (intro findall_item_end) (auto simp: no_space_def)
  have 2: "findall (''source'' @ CHR ''='' # source @ CHR '' '' # (''sink'' @ CHR ''='' # sink)) =
      (''source'', source) # findall (''sink'' @ CHR ''='' # sink)"
    using assms by (intro findall_item) (auto simp: no_space_def)
  show ?thesis using 2 unfolding 1 by simp
qed

lemma module_items_alt:
  "module_items st name = map (\<lambda>m. (parsed_args m, m)) (filter (\<lambda>m. mod_name m = name) (modules st))"
  by (simp add: module_items_def parsed_args_def module_list_def)

lemma vsink_dict_alt:
  "vsink_dict st =
     py_dict (map (\<lambda>m. (py_get (parsed_args m) ''sink_name'', m))
       (filter (\<lambda>m. mod_name m = ''module-null-sink'') (modules st)))"
  by (simp add: vsink_dict_def module_items_alt comp_def)

lemma loopback_dict_alt:
  "loopback_dict st = py_dict (map (\<lambda>m. (route_pair m, m)) (filter is_loopback (modules st)))"
  by (simp add: loopback_dict_def module_items_alt comp_def route_pair_def is_loopback_def [abs_def])

lemma vsink_dict_None_iff:
  "py_get (vsink_dict st) (Some name) = None \<longleftrightarrow> filter (is_vsink name) (modules st) = []"
  by (auto simp: vsink_dict_alt py_get_dict_None_iff is_vsink_def filter_empty_conv image_iff)

lemma vsink_dict_SomeD:
  "py_get (vsink_dict st) (Some name) = Some m \<Longrightarrow> m \<in> set (modules st) \<and> is_vsink name m"
  by (auto simp: vsink_dict_alt is_vsink_def dest!: py_get_dict_SomeD)

lemma loopback_dict_None_iff:
  "py_get (loopback_dict st) (Some source, Some sink) = None \<longleftrightarrow>
     filter (is_route source sink) (modules st) = []"
  by (auto simp: loopback_dict_alt py_get_dict_None_iff is_route_def filter_empty_conv image_iff)

lemma loopback_dict_SomeD:
  "py_get (loopback_dict st) (Some source, Some sink) = Some m \<Longrightarrow>
     m \<in> set (modules st) \<and> is_route source sink m"
  by (auto simp: loopback_dict_alt is_route_def dest!: py_get_dict_SomeD)

lemma is_vsink_new:
  "no_space name \<Longrightarrow>
   is_vsink name \<lparr>mod_index = i, mod_name = ''module-null-sink'',
     mod_argument = ''sink_name='' @ name @ '' sink_properties=device.description='' @ name\<rparr>"
  using findall_vsink_args [of name]
  by (simp add: is_vsink_def parsed_args_def py_get_py_dict)

lemma is_route_new:
  "no_space source \<Longrightarrow> no_space sink \<Longrightarrow>
   is_route source sink \<lparr>mod_index = i, mod_name = ''module-loopback'',
     mod_argument = ''source='' @ source @ '' sink='' @ sink\<rparr>"
  using findall_loopback_args [of source sink]
  by (simp add: is_route_def is_loopback_def route_pair_def parsed_args_def py_get_py_dict)

lemma vsink_dict_last:
  assumes "modules st = ms @ [m]" "is_vsink name m"
  shows "py_get (vsink_dict st) (Some name) = Some m"
  using assms by (simp add: vsink_dict_alt is_vsink_def py_get_py_dict)

lemma loopback_dict_last:
  assumes "modules st = ms @ [m]" "is_route source sink m"
  shows "py_get (loopback_dict st) (Some source, Some sink) = Some m"
  using assms by (simp add: loopback_dict_alt is_route_def py_get_py_dict)

subsection \<open>C2: creating the sink twice\<close>

lemma vsink_add_existing:
  assumes "filter (is_vsink name) (modules st) \<noteq> []"
  shows "snd (vsink_add st name) = st"
    and "\<exists>m\<in>set (modules st). is_vsink name m \<and> mod_index m = fst (vsink_add st name)"
proof -
  from assms obtain m where m: "py_get (vsink_dict st) (Some name) = Some m"
    using vsink_dict_None_iff [of st name] by (cases "py_get (vsink_dict st) (Some name)") auto
  then show "snd (vsink_add st name) = st" by (simp add: vsink_add_def)
  from vsink_dict_SomeD [OF m] m
  show "\<exists>m\<in>set (modules st). is_vsink name m \<and> mod_index m = fst (vsink_add st name)"
    by (auto simp: vsink_add_def)
qed

lemma vsink_add_fresh:
  assumes "filter (is_vsink name) (modules st) = []"
  shows "vsink_add st name =
    (next_index st,
     st\<lparr>modules := modules st @
          [\<lparr>mod_index = next_index st, mod_name = ''module-null-sink'',
            mod_argument = ''sink_name='' @ name @ '' sink_properties=device.description='' @ name\<rparr>],
        next_index := Suc (next_index st)\<rparr>)"
  using assms vsink_dict_None_iff [of st name]
  by (simp add: vsink_add_def do_vsink_add_def module_load_def)

text \<open>
  C2 (as amended). For every sink name that holds no space character, two calls of
  \<open>vsink_add\<close> in a row answer the same handle, the second call leaves the server as
  the first left it, the handle is the index of a null-sink module that carries the
  name, and the calls create one module when no null-sink module carried the name and
  none otherwise: a server with at most one such module ends with exactly one. For
  every name, a call creates nothing when a sink with that name exists.
\<close>

theorem vsink_add_idempotent:
  "(0 < count_vsinks st name \<longrightarrow> snd (vsink_add st name) = st)
   \<and> (no_space name \<longrightarrow>
        vsink_add (snd (vsink_add st name)) name = vsink_add st name
      \<and> count_vsinks (snd (vsink_add st name)) name = max 1 (count_vsinks st name)
      \<and> (\<exists>m\<in>set (modules (snd (vsink_add st name))).
            is_vsink name m \<and> mod_index m = fst (vsink_add st name)))"
proof (cases "filter (is_vsink name) (modules st) = []")
  case False
  from vsink_add_existing [OF False] False show ?thesis
    by (cases "vsink_add st name") (auto simp: count_vsinks_def max_def Suc_le_eq)
next
  case True
  let ?m = "\<lparr>mod_index = next_index st, mod_name = ''module-null-sink'',
      mod_argument = ''sink_name='' @ name @ '' sink_properties=device.description='' @ name\<rparr>"
  let ?st1 = "st\<lparr>modules := modules st @ [?m], next_index := Suc (next_index st)\<rparr>"
  have first: "vsink_add st name = (next_index st, ?st1)"
    by (rule vsink_add_fresh [OF True])
  have zero: "\<not> 0 < count_vsinks st name"
    using True by (simp add: count_vsinks_def)
  have rest: "vsink_add ?st1 name = (next_index st, ?st1)
      \<and> count_vsinks ?st1 name = max 1 (count_vsinks st name)
      \<and> (\<exists>m\<in>set (modules ?st1). is_vsink name m \<and> mod_index m = next_index st)"
    if ns: "no_space name"
  proof -
    have new: "is_vsink name ?m" by (rule is_vsink_new [OF ns])
    have "py_get (vsink_dict ?st1) (Some name) = Some ?m"
      by (rule vsink_dict_last [OF _ new]) simp
    then have "vsink_add ?st1 name = (next_index st, ?st1)"
      by (simp add: vsink_add_def)
    moreover have "count_vsinks ?st1 name = max 1 (count_vsinks st name)"
      using True new by (simp add: count_vsinks_def)
    moreover have "\<exists>m\<in>set (modules ?st1). is_vsink name m \<and> mod_index m = next_index st"
      using new by (intro bexI [of _ ?m]) simp_all
    ultimately show ?thesis by blast
  qed
  show ?thesis using zero rest by (simp add: first)
qed

theorem vsink_add_idempotent_witness:
  "0 < count_vsinks one_sink_server ''X'' \<and> no_space ''X''
   \<and> vsink_add one_sink_server ''X'' = (7, one_sink_server)
   \<and> vsink_add (snd (vsink_add empty_server ''X'')) ''X'' = vsink_add empty_server ''X''
   \<and> fst (vsink_add empty_server ''X'') = 0
   \<and> count_vsinks (snd (vsink_add empty_server ''X'')) ''X'' = 1"
proof -
  have a: "0 < count_vsinks one_sink_server ''X''" by code_simp
  have b: "no_space ''X''" by code_simp
  have c: "count_vsinks empty_server ''X'' = 0" by code_simp
  have d: "fst (vsink_add one_sink_server ''X'') = 7" by code_simp
  have e: "fst (vsink_add empty_server ''X'') = 0" by code_simp
  show ?thesis
    using vsink_add_idempotent [of one_sink_server "''X''"]
      vsink_add_idempotent [of empty_server "''X''"] a b c d e
    by (cases "vsink_add one_sink_server ''X''") simp
qed

text \<open>
  C2 as stated fails for a name with a space. On the server without modules the two
  calls for the name \<^verbatim>\<open>a b\<close> answer the handles 0 and 1 and leave two null-sink
  modules with the same arguments: the indexer reads the name of the first as \<^verbatim>\<open>a\<close>
  and does not find \<^verbatim>\<open>a b\<close>.
\<close>

theorem vsink_add_space_counterexample:
  "fst (vsink_add empty_server ''a b'') = 0
   \<and> fst (vsink_add (snd (vsink_add empty_server ''a b'')) ''a b'') = 1
   \<and> map mod_argument (modules (snd (vsink_add (snd (vsink_add empty_server ''a b'')) ''a b''))) =
       [''sink_name=a b sink_properties=device.description=a b'',
        ''sink_name=a b sink_properties=device.description=a b'']"
  by code_simp

subsection \<open>C3: creating a route twice\<close>

lemma loopback_add_existing:
  assumes "filter (is_route source sink) (modules st) \<noteq> []"
  shows "snd (loopback_add st source sink) = st"
    and "\<exists>m\<in>set (modules st). is_route source sink m \<and> mod_index m = fst (loopback_add st source sink)"
proof -
  from assms obtain m where m: "py_get (loopback_dict st) (Some source, Some sink) = Some m"
    using loopback_dict_None_iff [of st source sink]
    by (cases "py_get (loopback_dict st) (Some source, Some sink)") auto
  then show "snd (loopback_add st source sink) = st" by (simp add: loopback_add_def)
  from loopback_dict_SomeD [OF m] m
  show "\<exists>m\<in>set (modules st). is_route source sink m \<and> mod_index m = fst (loopback_add st source sink)"
    by (auto simp: loopback_add_def)
qed

lemma loopback_add_fresh:
  assumes "filter (is_route source sink) (modules st) = []"
  shows "loopback_add st source sink =
    (next_index st,
     st\<lparr>modules := modules st @
          [\<lparr>mod_index = next_index st, mod_name = ''module-loopback'',
            mod_argument = ''source='' @ source @ '' sink='' @ sink\<rparr>],
        next_index := Suc (next_index st)\<rparr>)"
  using assms loopback_dict_None_iff [of st source sink]
  by (simp add: loopback_add_def do_loopback_add_def module_load_def)

text \<open>
  C3 (as amended). For every source name and sink name that hold no space character,
  two calls of \<open>loopback_add\<close> in a row answer the same handle, the second call leaves
  the server as the first left it, the handle is the index of a loopback module for the
  pair, and the calls create one module when no loopback module connected the pair and
  none otherwise: a server with at most one route for the pair ends with exactly one.
  For every pair, a call creates nothing when a route for the pair exists.
\<close>

theorem loopback_add_idempotent:
  "(0 < count_routes st source sink \<longrightarrow> snd (loopback_add st source sink) = st)
   \<and> (no_space source \<and> no_space sink \<longrightarrow>
        loopback_add (snd (loopback_add st source sink)) source sink = loopback_add st source sink
      \<and> count_routes (snd (loopback_add st source sink)) source sink
          = max 1 (count_routes st source sink)
      \<and> (\<exists>m\<in>set (modules (snd (loopback_add st source sink))).
            is_route source sink m \<and> mod_index m = fst (loopback_add st source sink)))"
proof (cases "filter (is_route source sink) (modules st) = []")
  case False
  from loopback_add_existing [OF False] False show ?thesis
    by (cases "loopback_add st source sink") (auto simp: count_routes_def max_def Suc_le_eq)
next
  case True
  let ?m = "\<lparr>mod_index = next_index st, mod_name = ''module-loopback'',
      mod_argument = ''source='' @ source @ '' sink='' @ sink\<rparr>"
  let ?st1 = "st\<lparr>modules := modules st @ [?m], next_index := Suc (next_index st)\<rparr>"
  have first: "loopback_add st source sink = (next_index st, ?st1)"
    by (rule loopback_add_fresh [OF True])
  have zero: "\<not> 0 < count_routes st source sink"
    using True by (simp add: count_routes_def)
  have rest: "loopback_add ?st1 source sink = (next_index st, ?st1)
      \<and> count_routes ?st1 source sink = max 1 (count_routes st source sink)
      \<and> (\<exists>m\<in>set (modules ?st1). is_route source sink m \<and> mod_index m = next_index st)"
    if ns: "no_space source \<and> no_space sink"
  proof -
    have new: "is_route source sink ?m" using ns by (intro is_route_new) simp_all
    have "py_get (loopback_dict ?st1) (Some source, Some sink) = Some ?m"
      by (rule loopback_dict_last [OF _ new]) simp
    then have "loopback_add ?st1 source sink = (next_index st, ?st1)"
      by (simp add: loopback_add_def)
    moreover have "count_routes ?st1 source sink = max 1 (count_routes st source sink)"
      using True new by (simp add: count_routes_def)
    moreover have "\<exists>m\<in>set (modules ?st1). is_route source sink m \<and> mod_index m = next_index st"
      using new by (intro bexI [of _ ?m]) simp_all
    ultimately show ?thesis by blast
  qed
  show ?thesis using zero rest by (simp add: first)
qed

theorem loopback_add_idempotent_witness:
  "0 < count_routes one_route_server ''mic'' ''X'' \<and> no_space ''mic'' \<and> no_space ''X''
   \<and> loopback_add one_route_server ''mic'' ''X'' = (3, one_route_server)
   \<and> loopback_add (snd (loopback_add empty_server ''mic'' ''X'')) ''mic'' ''X''
       = loopback_add empty_server ''mic'' ''X''
   \<and> fst (loopback_add empty_server ''mic'' ''X'') = 0
   \<and> count_routes (snd (loopback_add empty_server ''mic'' ''X'')) ''mic'' ''X'' = 1"
proof -
  have a: "0 < count_routes one_route_server ''mic'' ''X''" by code_simp
  have b: "no_space ''mic''" "no_space ''X''" by code_simp+
  have c: "count_routes empty_server ''mic'' ''X'' = 0" by code_simp
  have d: "fst (loopback_add one_route_server ''mic'' ''X'') = 3" by code_simp
  have e: "fst (loopback_add empty_server ''mic'' ''X'') = 0" by code_simp
  show ?thesis
    using loopback_add_idempotent [of one_route_server "''mic''" "''X''"]
      loopback_add_idempotent [of empty_server "''mic''" "''X''"] a b c d e
    by (cases "loopback_add one_route_server ''mic'' ''X''") simp
qed

text \<open>
  C3 as stated fails for a source name with a space. On the server without modules the
  two calls for the pair (\<^verbatim>\<open>a b\<close>, \<^verbatim>\<open>X\<close>) answer the handles 0 and 1 and leave two
  loopback modules with the same arguments.
\<close>

theorem loopback_add_space_counterexample:
  "fst (loopback_add empty_server ''a b'' ''X'') = 0
   \<and> fst (loopback_add (snd (loopback_add empty_server ''a b'' ''X'')) ''a b'' ''X'') = 1
   \<and> map mod_argument
        (modules (snd (loopback_add (snd (loopback_add empty_server ''a b'' ''X'')) ''a b'' ''X''))) =
       [''source=a b sink=X'', ''source=a b sink=X'']"
  by code_simp

subsection \<open>Unloading modules\<close>

lemma module_unload_filter:
  "module_unload (st\<lparr>modules := filter P (modules st)\<rparr>) i =
     st\<lparr>modules := filter (\<lambda>m. P m \<and> mod_index m \<noteq> i) (modules st)\<rparr>"
  by (simp add: module_unload_def conj_commute)

lemma foldl_unload_filter:
  "foldl (\<lambda>s x. if sel x then module_unload s (idx x) else s)
      (st\<lparr>modules := filter P (modules st)\<rparr>) xs =
   st\<lparr>modules := filter (\<lambda>m. P m \<and> mod_index m \<notin> idx ` {x \<in> set xs. sel x}) (modules st)\<rparr>"
proof (induction xs arbitrary: P)
  case Nil
  show ?case by simp
next
  case (Cons x xs)
  show ?case
  proof (cases "sel x")
    case True
    have "{y. (y = x \<or> y \<in> set xs) \<and> sel y} = insert x {y \<in> set xs. sel y}"
      using True by auto
    then show ?thesis
      using True Cons [of "\<lambda>m. P m \<and> mod_index m \<noteq> idx x"]
      by (simp add: module_unload_filter)
  next
    case False
    have "{y. (y = x \<or> y \<in> set xs) \<and> sel y} = {y \<in> set xs. sel y}"
      using False by auto
    then show ?thesis using False Cons [of P] by simp
  qed
qed

lemma foldl_unload:
  "foldl (\<lambda>s x. if sel x then module_unload s (idx x) else s) st xs =
   st\<lparr>modules := filter (\<lambda>m. mod_index m \<notin> idx ` {x \<in> set xs. sel x}) (modules st)\<rparr>"
  using foldl_unload_filter [where P = "\<lambda>_. True" and st = st and sel = sel and idx = idx and xs = xs]
  by simp

lemma vsink_disconnect_eq:
  "vsink_disconnect st sink =
     st\<lparr>modules := filter (\<lambda>m. mod_index m \<notin>
            (\<lambda>e. mod_index (snd e)) ` {e \<in> set (loopback_dict st). snd (fst e) = Some sink})
          (modules st)\<rparr>"
proof -
  have "vsink_disconnect st sink =
      foldl (\<lambda>s e. if snd (fst e) = Some sink then module_unload s (mod_index (snd e)) else s)
        st (loopback_dict st)"
    by (simp add: vsink_disconnect_def split_def)
  then show ?thesis by (simp only: foldl_unload)
qed

lemma py_dict_member_unique:
  assumes "(k, v) \<in> set kvs" and "\<And>v'. (k, v') \<in> set kvs \<Longrightarrow> v' = v"
  shows "(k, v) \<in> set (py_dict kvs)"
proof -
  have "k \<in> fst ` set (py_dict kvs)"
    using assms(1) unfolding py_dict_keys_set by force
  then obtain v' where v': "(k, v') \<in> set (py_dict kvs)" by auto
  with py_dict_subset have "(k, v') \<in> set kvs" by blast
  with assms(2) v' show ?thesis by simp
qed

lemma unloaded_routes_unique:
  assumes "unique_routes_into st sink"
  shows "(\<lambda>e. mod_index (snd e)) ` {e \<in> set (loopback_dict st). snd (fst e) = Some sink} =
    mod_index ` {m \<in> set (modules st). is_route_into sink m}"
proof -
  let ?items = "map (\<lambda>m. (route_pair m, m)) (filter is_loopback (modules st))"
  have inj: "inj_on route_pair {m \<in> set (modules st). is_route_into sink m}"
    using assms by (simp add: unique_routes_into_def distinct_map)
  have "{e \<in> set (py_dict ?items). snd (fst e) = Some sink} =
      (\<lambda>m. (route_pair m, m)) ` {m \<in> set (modules st). is_route_into sink m}"
  proof (intro set_eqI iffI)
    fix e assume "e \<in> {e \<in> set (py_dict ?items). snd (fst e) = Some sink}"
    then have "e \<in> set ?items" "snd (fst e) = Some sink"
      using py_dict_subset [of ?items] by auto
    then show "e \<in> (\<lambda>m. (route_pair m, m)) ` {m \<in> set (modules st). is_route_into sink m}"
      by (auto simp: is_route_into_def)
  next
    fix e assume "e \<in> (\<lambda>m. (route_pair m, m)) ` {m \<in> set (modules st). is_route_into sink m}"
    then obtain m where e: "e = (route_pair m, m)" and m: "m \<in> set (modules st)"
      and r: "is_route_into sink m" by auto
    have "(route_pair m, m) \<in> set (py_dict ?items)"
    proof (rule py_dict_member_unique)
      show "(route_pair m, m) \<in> set ?items" using m r by (auto simp: is_route_into_def)
    next
      fix m' assume "(route_pair m, m') \<in> set ?items"
      then have m': "m' \<in> set (modules st)" "is_loopback m'" "route_pair m' = route_pair m"
        by auto
      with r have "is_route_into sink m'" by (simp add: is_route_into_def)
      with inj m m' r show "m' = m" by (auto dest: inj_onD)
    qed
    with e r show "e \<in> {e \<in> set (py_dict ?items). snd (fst e) = Some sink}"
      by (simp add: is_route_into_def)
  qed
  then show ?thesis
    by (simp add: loopback_dict_alt image_image)
qed

lemma filter_index_image:
  assumes "distinct (map mod_index ms)" "S \<subseteq> set ms"
  shows "filter (\<lambda>m. mod_index m \<notin> mod_index ` S) ms = filter (\<lambda>m. m \<notin> S) ms"
proof (rule filter_cong [OF refl])
  fix m assume m: "m \<in> set ms"
  have "inj_on mod_index (set ms)" using assms(1) by (simp add: distinct_map)
  then have "mod_index m \<in> mod_index ` S \<longleftrightarrow> m \<in> S"
    using m assms(2) by (auto dest: inj_onD)
  then show "(mod_index m \<notin> mod_index ` S) = (m \<notin> S)" by simp
qed

subsection \<open>C9: disconnecting a sink\<close>

lemma unloaded_are_routes:
  assumes "i \<in> (\<lambda>e. mod_index (snd e)) ` {e \<in> set (loopback_dict st). snd (fst e) = Some sink}"
  shows "\<exists>m\<in>set (modules st). is_route_into sink m \<and> mod_index m = i"
proof -
  from assms obtain e where e: "e \<in> set (loopback_dict st)" "snd (fst e) = Some sink"
    and i: "i = mod_index (snd e)" by auto
  from e(1) py_dict_subset
  have "e \<in> set (map (\<lambda>m. (route_pair m, m)) (filter is_loopback (modules st)))"
    unfolding loopback_dict_alt by blast
  with e(2) i show ?thesis by (auto simp: is_route_into_def)
qed

lemma vsink_disconnect_frame:
  assumes "distinct_indices st"
  shows "filter (\<lambda>m. \<not> is_route_into sink m) (modules (vsink_disconnect st sink)) =
    filter (\<lambda>m. \<not> is_route_into sink m) (modules st)"
proof -
  let ?U = "(\<lambda>e. mod_index (snd e)) ` {e \<in> set (loopback_dict st). snd (fst e) = Some sink}"
  have inj: "inj_on mod_index (set (modules st))"
    using assms by (simp add: distinct_indices_def distinct_map)
  have "filter (\<lambda>m. mod_index m \<notin> ?U \<and> \<not> is_route_into sink m) (modules st) =
      filter (\<lambda>m. \<not> is_route_into sink m) (modules st)"
  proof (rule filter_cong [OF refl])
    fix m assume m: "m \<in> set (modules st)"
    have "mod_index m \<notin> ?U" if "\<not> is_route_into sink m"
    proof
      assume "mod_index m \<in> ?U"
      from unloaded_are_routes [OF this] obtain m' where
        "m' \<in> set (modules st)" "is_route_into sink m'" "mod_index m' = mod_index m" by blast
      with inj m have "m' = m" by (auto dest: inj_onD)
      with \<open>is_route_into sink m'\<close> that show False by simp
    qed
    then show "(mod_index m \<notin> ?U \<and> \<not> is_route_into sink m) = (\<not> is_route_into sink m)"
      by blast
  qed
  then show ?thesis by (simp add: vsink_disconnect_eq conj_commute)
qed

lemma vsink_disconnect_complete:
  assumes "unique_routes_into st sink"
  shows "list_all (\<lambda>m. \<not> is_route_into sink m) (modules (vsink_disconnect st sink))"
  unfolding vsink_disconnect_eq using unloaded_routes_unique [OF assms]
  by (auto simp: list_all_iff)

lemma vsink_disconnect_exact:
  assumes "distinct_indices st" and "unique_routes_into st sink"
  shows "vsink_disconnect st sink =
    st\<lparr>modules := filter (\<lambda>m. \<not> is_route_into sink m) (modules st)\<rparr>"
proof -
  have d: "distinct (map mod_index (modules st))"
    using assms(1) by (simp add: distinct_indices_def)
  have "filter (\<lambda>m. mod_index m \<notin> mod_index ` {m \<in> set (modules st). is_route_into sink m}) (modules st)
      = filter (\<lambda>m. m \<notin> {m \<in> set (modules st). is_route_into sink m}) (modules st)"
    by (rule filter_index_image [OF d]) auto
  also have "\<dots> = filter (\<lambda>m. \<not> is_route_into sink m) (modules st)"
    by (rule filter_cong) auto
  finally show ?thesis
    by (simp add: vsink_disconnect_eq unloaded_routes_unique [OF assms(2)])
qed

text \<open>
  C9 (as amended). \<open>vsink_disconnect\<close> only unloads modules. On a server whose modules
  have indices of their own it unloads no module other than loopback modules whose target
  is the sink: the routes into other sinks, the sink module and every other module are
  still there afterwards, in the old order. When no two loopback modules connect the
  same source to the sink, it unloads every loopback module whose target is the sink;
  with both conditions the module table afterwards is the old one without exactly those
  routes.
\<close>

theorem vsink_disconnect_routes:
  "(\<exists>P. vsink_disconnect st sink = st\<lparr>modules := filter P (modules st)\<rparr>)
   \<and> (distinct_indices st \<longrightarrow>
        filter (\<lambda>m. \<not> is_route_into sink m) (modules (vsink_disconnect st sink)) =
        filter (\<lambda>m. \<not> is_route_into sink m) (modules st))
   \<and> (unique_routes_into st sink \<longrightarrow>
        list_all (\<lambda>m. \<not> is_route_into sink m) (modules (vsink_disconnect st sink)))
   \<and> (distinct_indices st \<and> unique_routes_into st sink \<longrightarrow>
        vsink_disconnect st sink =
        st\<lparr>modules := filter (\<lambda>m. \<not> is_route_into sink m) (modules st)\<rparr>)"
proof -
  have "\<exists>P. vsink_disconnect st sink = st\<lparr>modules := filter P (modules st)\<rparr>"
    using vsink_disconnect_eq [of st sink] by blast
  then show ?thesis
    using vsink_disconnect_frame [of st sink] vsink_disconnect_complete [of st sink]
      vsink_disconnect_exact [of st sink]
    by blast
qed

theorem vsink_disconnect_routes_witness:
  "distinct_indices idle_server \<and> unique_routes_into idle_server ''X''
   \<and> vsink_disconnect idle_server ''X'' = idle_server\<lparr>modules := [sink_X, route_mic_Y]\<rparr>
   \<and> distinct_indices twice_routed_server
   \<and> filter (\<lambda>m. \<not> is_route_into ''X'' m) (modules (vsink_disconnect twice_routed_server ''X''))
       = [sink_X, route_mic_Y]"
proof -
  have a: "distinct_indices idle_server" by code_simp
  have b: "unique_routes_into idle_server ''X''" by code_simp
  have c: "filter (\<lambda>m. \<not> is_route_into ''X'' m) (modules idle_server) = [sink_X, route_mic_Y]"
    by code_simp
  have d: "distinct_indices twice_routed_server" by code_simp
  have e: "filter (\<lambda>m. \<not> is_route_into ''X'' m) (modules twice_routed_server) = [sink_X, route_mic_Y]"
    by code_simp
  show ?thesis
    using vsink_disconnect_routes [of idle_server "''X''"]
      vsink_disconnect_routes [of twice_routed_server "''X''"] a b c d e
    by simp
qed

text \<open>
  C9 as stated fails when a route exists twice. \<open>loopback_dict\<close> keeps one module for
  each pair, the one listed last, so of the two loopback modules from \<^verbatim>\<open>mic\<close> to
  \<^verbatim>\<open>X\<close> only the second is unloaded and the first, a route into \<^verbatim>\<open>X\<close>, stays.
\<close>

theorem vsink_disconnect_duplicate_counterexample:
  "distinct_indices twice_routed_server
   \<and> modules (vsink_disconnect twice_routed_server ''X'') = [sink_X, route_mic_X, route_mic_Y]
   \<and> is_route_into ''X'' route_mic_X"
  by code_simp

subsection \<open>C1: removing a sink that nobody uses\<close>

lemma vsink_remove_eq:
  "vsink_remove st name =
     (let st1 = vsink_disconnect st name in
      st1\<lparr>modules := filter (\<lambda>m. mod_index m \<notin>
            mod_index ` {m \<in> set (modules st1). is_vsink name m}) (modules st1)\<rparr>)"
proof -
  define st1 where "st1 = vsink_disconnect st name"
  have "{e \<in> set (module_items st1 ''module-null-sink''). py_get (fst e) ''sink_name'' = Some name} =
      (\<lambda>m. (parsed_args m, m)) ` {m \<in> set (modules st1). is_vsink name m}"
    by (auto simp: module_items_alt is_vsink_def)
  then have "foldl (\<lambda>s e. if py_get (fst e) ''sink_name'' = Some name
                 then module_unload s (mod_index (snd e)) else s)
        st1 (module_items st1 ''module-null-sink'') =
      st1\<lparr>modules := filter (\<lambda>m. mod_index m \<notin>
            mod_index ` {m \<in> set (modules st1). is_vsink name m}) (modules st1)\<rparr>"
    by (simp only: foldl_unload) (simp add: image_image)
  then show ?thesis
    by (simp add: vsink_remove_def split_def Let_def st1_def)
qed

lemma vsink_remove_post:
  "\<exists>P. vsink_remove st name = st\<lparr>modules := filter P (modules st)\<rparr>"
  "list_all (\<lambda>m. \<not> is_vsink name m) (modules (vsink_remove st name))"
  "unique_routes_into st name \<Longrightarrow>
     list_all (\<lambda>m. \<not> is_route_into name m) (modules (vsink_remove st name))"
proof -
  let ?U = "(\<lambda>e. mod_index (snd e)) ` {e \<in> set (loopback_dict st). snd (fst e) = Some name}"
  let ?st1 = "st\<lparr>modules := filter (\<lambda>m. mod_index m \<notin> ?U) (modules st)\<rparr>"
  let ?V = "mod_index ` {m \<in> set (modules ?st1). is_vsink name m}"
  have eq: "vsink_remove st name =
      st\<lparr>modules := filter (\<lambda>m. mod_index m \<notin> ?U \<and> mod_index m \<notin> ?V) (modules st)\<rparr>"
    by (simp add: vsink_remove_eq vsink_disconnect_eq Let_def conj_commute)
  show "\<exists>P. vsink_remove st name = st\<lparr>modules := filter P (modules st)\<rparr>"
    using eq by blast
  show "list_all (\<lambda>m. \<not> is_vsink name m) (modules (vsink_remove st name))"
    unfolding eq by (auto simp: list_all_iff)
  show "list_all (\<lambda>m. \<not> is_route_into name m) (modules (vsink_remove st name))"
    if "unique_routes_into st name"
    unfolding eq using unloaded_routes_unique [OF that]
    by (auto simp: list_all_iff)
qed

text \<open>
  C1 (as amended). When \<open>vsink_apps\<close> finds a consumer, \<open>vsink_safe_remove\<close> leaves the
  server as it is, the sink module and every route included, and returns the consumers
  found. When it finds none, it returns the empty dictionary and only unloads modules:
  afterwards no null-sink module carries the name and, provided no two loopback modules
  connected the same source to the sink, no loopback module has the sink as its target.
\<close>

theorem vsink_safe_remove_guard:
  "(vsink_apps st name \<noteq> [] \<longrightarrow> vsink_safe_remove st name = (st, vsink_apps st name))
   \<and> (vsink_apps st name = [] \<longrightarrow>
        snd (vsink_safe_remove st name) = []
      \<and> (\<exists>P. fst (vsink_safe_remove st name) = st\<lparr>modules := filter P (modules st)\<rparr>)
      \<and> list_all (\<lambda>m. \<not> is_vsink name m) (modules (fst (vsink_safe_remove st name)))
      \<and> (unique_routes_into st name \<longrightarrow>
            list_all (\<lambda>m. \<not> is_route_into name m) (modules (fst (vsink_safe_remove st name)))))"
  using vsink_remove_post [where st = st and name = name]
  by (simp add: vsink_safe_remove_def Let_def)

theorem vsink_safe_remove_guard_witness:
  "vsink_apps busy_server ''X'' \<noteq> [] \<and> unique_routes_into idle_server ''X''
   \<and> vsink_apps idle_server ''X'' = []
   \<and> vsink_safe_remove busy_server ''X'' = (busy_server, [(''Recorder'', recorder)])
   \<and> snd (vsink_safe_remove idle_server ''X'') = []
   \<and> modules (fst (vsink_safe_remove idle_server ''X'')) = [route_mic_Y]"
proof -
  have a: "vsink_apps busy_server ''X'' = [(''Recorder'', recorder)]" by code_simp
  have b: "unique_routes_into idle_server ''X''" by code_simp
  have c: "vsink_apps idle_server ''X'' = []" by code_simp
  have d: "modules (fst (vsink_safe_remove idle_server ''X'')) = [route_mic_Y]" by code_simp
  show ?thesis
    using vsink_safe_remove_guard [of busy_server "''X''"]
      vsink_safe_remove_guard [of idle_server "''X''"] a b c d
    by simp
qed

text \<open>
  C1 as stated fails when a route exists twice: with no consumer, the removal unloads
  the sink \<^verbatim>\<open>X\<close> and the route listed last, and the other route from \<^verbatim>\<open>mic\<close> to \<^verbatim>\<open>X\<close>
  is still loaded afterwards.
\<close>

theorem vsink_safe_remove_duplicate_counterexample:
  "vsink_apps twice_routed_server ''X'' = []
   \<and> modules (fst (vsink_safe_remove twice_routed_server ''X'')) = [route_mic_X, route_mic_Y]
   \<and> is_route_into ''X'' route_mic_X"
  by code_simp

subsection \<open>C4: a sink whose monitor is gone\<close>









subsection \<open>C6: who counts as a consumer\<close>

lemma vsink_apps_keys:
  "set (py_keys (vsink_apps st name)) =
     so_name ` {c \<in> set (source_output_list st). reads_monitor st name c \<and> so_name c \<noteq> ''Peak detect''}"
proof -
  have "set (py_keys (vsink_apps st name)) = fst ` set (vsink_apps st name)"
    by (simp add: py_keys_def)
  also have "\<dots> = so_name ` {c \<in> set (source_output_list st).
      reads_monitor st name c \<and> so_name c \<noteq> ''Peak detect''}"
    unfolding vsink_apps_def Let_def py_dict_keys_set
    by (auto simp: reads_monitor_def is_pavucontrol_def image_iff)
  finally show ?thesis .
qed

lemma vsink_apps_entries:
  "(n, c) \<in> set (vsink_apps st name) \<Longrightarrow>
   so_name c = n \<and> c \<in> set (source_output_list st) \<and> reads_monitor st name c"
  using py_dict_subset [of "map (\<lambda>c. (so_name c, c))
      (filter (\<lambda>c. \<not> is_pavucontrol c)
        (filter (\<lambda>c. int (so_source c) = vsink_source st name) (source_output_list st)))"]
  by (auto simp: vsink_apps_def Let_def reads_monitor_def)

text \<open>
  C6. The name \<^verbatim>\<open>Peak detect\<close> is never among the names \<open>vsink_apps\<close> returns, and
  the name of every other stream whose source is the index of the sink's monitor is
  among them; every entry returned is such a stream, stored under its own name.
\<close>

theorem vsink_apps_excludes_peak_detect:
  "''Peak detect'' \<notin> set (py_keys (vsink_apps st name))
   \<and> (\<forall>c\<in>set (source_output_list st).
        reads_monitor st name c \<and> so_name c \<noteq> ''Peak detect'' \<longrightarrow>
        so_name c \<in> set (py_keys (vsink_apps st name)))
   \<and> (\<forall>e\<in>set (vsink_apps st name).
        so_name (snd e) = fst e \<and> snd e \<in> set (source_output_list st) \<and> reads_monitor st name (snd e))"
proof -
  have "\<forall>e\<in>set (vsink_apps st name).
        so_name (snd e) = fst e \<and> snd e \<in> set (source_output_list st) \<and> reads_monitor st name (snd e)"
    using vsink_apps_entries [of _ _ st name] by (metis prod.collapse)
  then show ?thesis unfolding vsink_apps_keys by auto
qed

theorem vsink_apps_excludes_peak_detect_witness:
  "recorder \<in> set (source_output_list metered_server)
   \<and> reads_monitor metered_server ''X'' recorder \<and> so_name recorder \<noteq> ''Peak detect''
   \<and> so_name recorder \<in> set (py_keys (vsink_apps metered_server ''X''))
   \<and> ''Peak detect'' \<notin> set (py_keys (vsink_apps metered_server ''X''))
   \<and> reads_monitor metered_server ''X'' peak_detect
   \<and> vsink_apps metered_server ''X'' = [(''Recorder'', recorder)]"
proof -
  have a: "recorder \<in> set (source_output_list metered_server)" by code_simp
  have b: "reads_monitor metered_server ''X'' recorder" by code_simp
  have c: "so_name recorder \<noteq> ''Peak detect''" by code_simp
  have d: "reads_monitor metered_server ''X'' peak_detect" by code_simp
  have e: "vsink_apps metered_server ''X'' = [(''Recorder'', recorder)]" by code_simp
  from vsink_apps_excludes_peak_detect [of metered_server "''X''"] a b c
  have "so_name recorder \<in> set (py_keys (vsink_apps metered_server ''X''))"
    and "''Peak detect'' \<notin> set (py_keys (vsink_apps metered_server ''X''))"
    by blast+
  with a b c d e show ?thesis by blast
qed

subsection \<open>C10: one entry for each display name\<close>

lemma count_key_distinct:
  "distinct (map fst d) \<Longrightarrow>
   length (filter (\<lambda>e. fst e = n) d) = (if n \<in> fst ` set d then 1 else 0)"
  by (induction d) (auto simp: image_iff)

text \<open>
  C10. The dictionary \<open>vsink_apps\<close> returns has no name twice, and for every stream
  that reads the sink's monitor (the level meter apart) it has exactly one entry under
  the stream's name: streams that share a display name share one entry.
\<close>

theorem vsink_apps_one_per_name:
  "distinct (py_keys (vsink_apps st name))
   \<and> (\<forall>c\<in>set (source_output_list st).
        reads_monitor st name c \<and> so_name c \<noteq> ''Peak detect'' \<longrightarrow>
        length (filter (\<lambda>e. fst e = so_name c) (vsink_apps st name)) = 1)"
proof -
  have d: "distinct (map fst (vsink_apps st name))"
    by (simp add: vsink_apps_def Let_def py_dict_keys_distinct)
  have "fst ` set (vsink_apps st name) =
      so_name ` {c \<in> set (source_output_list st). reads_monitor st name c \<and> so_name c \<noteq> ''Peak detect''}"
    using vsink_apps_keys [of st name] by (simp add: py_keys_def)
  then show ?thesis
    using d by (auto simp: count_key_distinct py_keys_def)
qed

theorem vsink_apps_one_per_name_witness:
  "recorder \<in> set (source_output_list two_recorders_server)
   \<and> recorder_again \<in> set (source_output_list two_recorders_server)
   \<and> recorder \<noteq> recorder_again \<and> so_name recorder = so_name recorder_again
   \<and> reads_monitor two_recorders_server ''X'' recorder
   \<and> reads_monitor two_recorders_server ''X'' recorder_again
   \<and> so_name recorder \<noteq> ''Peak detect''
   \<and> length (filter (\<lambda>e. fst e = so_name recorder) (vsink_apps two_recorders_server ''X'')) = 1
   \<and> py_keys (vsink_apps two_recorders_server ''X'') = [''Recorder'']"
proof -
  have a: "recorder \<in> set (source_output_list two_recorders_server)"
    "recorder_again \<in> set (source_output_list two_recorders_server)" by code_simp+
  have b: "recorder \<noteq> recorder_again" "so_name recorder = so_name recorder_again" by code_simp+
  have c: "reads_monitor two_recorders_server ''X'' recorder"
    "reads_monitor two_recorders_server ''X'' recorder_again" by code_simp+
  have d: "so_name recorder \<noteq> ''Peak detect''" by code_simp
  have e: "py_keys (vsink_apps two_recorders_server ''X'') = [''Recorder'']" by code_simp
  from vsink_apps_one_per_name [of two_recorders_server "''X''"] a(1) c(1) d
  have "length (filter (\<lambda>e. fst e = so_name recorder) (vsink_apps two_recorders_server ''X'')) = 1"
    by blast
  with a b c d e show ?thesis by blast
qed

subsection \<open>C5: the connect pass\<close>

lemma loopback_add_modules:
  "\<exists>new. snd (loopback_add s source sink) =
      s\<lparr>modules := modules s @ new, next_index := next_index s + length new\<rparr>
    \<and> list_all (\<lambda>m. m = route_module (mod_index m) source sink) new"
proof (cases "py_get (loopback_dict s) (Some source, Some sink)")
  case None
  then have "snd (loopback_add s source sink) =
      s\<lparr>modules := modules s @ [route_module (next_index s) source sink],
        next_index := next_index s + length [route_module (next_index s) source sink]\<rparr>"
    by (simp add: loopback_add_def do_loopback_add_def module_load_def route_module_def)
  then show ?thesis
    by (intro exI [of _ "[route_module (next_index s) source sink]"])
      (auto simp: route_module_def)
next
  case (Some m)
  then have "snd (loopback_add s source sink) = s\<lparr>modules := modules s @ [], next_index := next_index s + length ([] :: pa_module list)\<rparr>"
    by (simp add: loopback_add_def)
  then show ?thesis by (intro exI [of _ "[]"]) simp
qed

lemma connect_loop:
  assumes "set xs \<subseteq> set (source_list st)"
  shows "\<exists>new. foldl (\<lambda>s src. if src_name src \<noteq> name @ ''.monitor''
                     then snd (loopback_add s (src_name src) name) else s) s0 xs =
      s0\<lparr>modules := modules s0 @ new, next_index := next_index s0 + length new\<rparr>
    \<and> list_all (created_by_connect st name) new"
  using assms
proof (induction xs arbitrary: s0)
  case Nil
  show ?case by (intro exI [of _ "[]"]) simp
next
  case (Cons x xs)
  let ?f = "\<lambda>s src. if src_name src \<noteq> name @ ''.monitor''
                     then snd (loopback_add s (src_name src) name) else s"
  obtain n1 where n1: "?f s0 x = s0\<lparr>modules := modules s0 @ n1, next_index := next_index s0 + length n1\<rparr>"
    and c1: "list_all (created_by_connect st name) n1"
  proof (cases "src_name x \<noteq> name @ ''.monitor''")
    case True
    from loopback_add_modules [of s0 "src_name x" name] obtain new where
      new: "snd (loopback_add s0 (src_name x) name) =
          s0\<lparr>modules := modules s0 @ new, next_index := next_index s0 + length new\<rparr>"
      and all: "list_all (\<lambda>m. m = route_module (mod_index m) (src_name x) name) new" by blast
    have "x \<in> set (source_list st)" using Cons.prems by simp
    with all True have "list_all (created_by_connect st name) new"
      by (auto simp: list_all_iff created_by_connect_def)
    with new True that show ?thesis by simp
  next
    case False
    then have "?f s0 x = s0\<lparr>modules := modules s0 @ [], next_index := next_index s0 + length ([] :: pa_module list)\<rparr>"
      by simp
    then show ?thesis using that [of "[]"] by simp
  qed
  from Cons.prems have "set xs \<subseteq> set (source_list st)" by simp
  from Cons.IH [OF this, of "?f s0 x"] obtain n2 where
    n2: "foldl ?f (?f s0 x) xs =
        (?f s0 x)\<lparr>modules := modules (?f s0 x) @ n2, next_index := next_index (?f s0 x) + length n2\<rparr>"
    and c2: "list_all (created_by_connect st name) n2" by blast
  have "foldl ?f s0 (x # xs) =
      s0\<lparr>modules := modules s0 @ (n1 @ n2), next_index := next_index s0 + length (n1 @ n2)\<rparr>"
    unfolding foldl_Cons n2 unfolding n1 by simp
  moreover have "list_all (created_by_connect st name) (n1 @ n2)" using c1 c2 by simp
  ultimately show ?case by blast
qed

lemma created_not_self_loop:
  assumes "created_by_connect st name m"
  shows "mod_argument m \<noteq> self_loop_argument name"
proof -
  from assms obtain src :: pa_source where ne: "src_name src \<noteq> name @ ''.monitor''"
    and m: "m = route_module (mod_index m) (src_name src) name"
    by (auto simp: created_by_connect_def)
  have "mod_argument (route_module (mod_index m) (src_name src) name) =
      ''source='' @ src_name src @ '' sink='' @ name"
    by (simp add: route_module_def)
  with m have "mod_argument m = ''source='' @ src_name src @ '' sink='' @ name" by simp
  with ne show ?thesis by (simp add: self_loop_argument_def)
qed

lemma split_on_tokens: "\<forall>t\<in>set (split_on sep s). \<forall>c\<in>set t. \<not> sep c"
  by (induction s) (auto split: list.splits)

lemma split_on_no_sep: "t \<in> set (split_on sep s) \<Longrightarrow> c \<in> set t \<Longrightarrow> \<not> sep c"
  using split_on_tokens [of sep s] by blast

lemma token_item_subset:
  assumes "token_item t = Some (k, v)"
  shows "set k \<subseteq> set t" and "set v \<subseteq> set t"
proof -
  from token_item_parts [OF assms] have "t = k @ CHR ''='' # v" by simp
  then have "set t = set k \<union> insert CHR ''='' (set v)" by (metis set_append list.simps(15))
  then show "set k \<subseteq> set t" and "set v \<subseteq> set t" by auto
qed

lemma findall_no_space:
  assumes "(k, v) \<in> set (findall s)"
  shows "no_space k \<and> no_space v"
proof -
  from assms obtain t where t: "t \<in> set (split_on is_space s)" and kv: "token_item t = Some (k, v)"
    by (auto simp: findall_token_items token_items_on_def List.map_filter_def)
  have "CHR '' '' \<notin> set t" using split_on_no_sep [OF t, of "CHR '' ''"] by (auto simp: is_space_def)
  with token_item_subset [OF kv] show ?thesis by (auto simp: no_space_def)
qed

lemma parsed_args_no_space: "py_get (parsed_args m) key = Some v \<Longrightarrow> no_space v"
  unfolding parsed_args_def by (auto dest!: py_get_dict_SomeD dest: findall_no_space)

lemma is_route_no_space: "is_route source sink m \<Longrightarrow> no_space source \<and> no_space sink"
  by (auto simp: is_route_def route_pair_def dest: parsed_args_no_space)

lemma route_module_not_self_loop:
  assumes "no_space s" and "s \<noteq> name @ ''.monitor''"
  shows "\<not> is_route (name @ ''.monitor'') name (route_module i s name)"
proof
  assume r: "is_route (name @ ''.monitor'') name (route_module i s name)"
  then have "no_space name" by (auto dest: is_route_no_space)
  with assms(1) have "is_route s name (route_module i s name)"
    unfolding route_module_def by (intro is_route_new)
  with r have "Some s = Some (name @ ''.monitor'')" by (simp add: is_route_def)
  with assms(2) show False by simp
qed

lemma created_not_self_route:
  assumes "created_by_connect st name m"
    and "list_all (\<lambda>src. no_space (src_name src)) (source_list st)"
  shows "\<not> is_route (name @ ''.monitor'') name m"
proof -
  from assms(1) obtain src :: pa_source where src: "src \<in> set (source_list st)"
    and ne: "src_name src \<noteq> name @ ''.monitor''"
    and m: "m = route_module (mod_index m) (src_name src) name"
    by (auto simp: created_by_connect_def)
  from src assms(2) have "no_space (src_name src)" by (simp add: list_all_iff)
  from route_module_not_self_loop [OF this ne, of "mod_index m"] m show ?thesis by simp
qed

text \<open>
  C5 (as amended). For every sink name and every listing of sources, the connect pass
  only appends modules to the module table, and each module it appends is a loopback
  module loaded for a listed source whose name is not \<^verbatim>\<open><name>.monitor\<close>, with that
  source and the sink as its arguments, which are not the arguments of the route from
  the sink's own monitor. When no listed source has a space in its name, none of the
  appended modules is, as the indexer reads it, a route from the sink's monitor into
  the sink.
\<close>

theorem capturer_connect_no_self_loop:
  "\<exists>new. capturer_connect st name =
      st\<lparr>modules := modules st @ new, next_index := next_index st + length new\<rparr>
    \<and> list_all (\<lambda>m. created_by_connect st name m \<and> mod_argument m \<noteq> self_loop_argument name) new
    \<and> (list_all (\<lambda>src. no_space (src_name src)) (source_list st) \<longrightarrow>
         list_all (\<lambda>m. \<not> is_route (name @ ''.monitor'') name m) new)"
proof -
  from connect_loop [of "source_list st" st name st] obtain new where
    "capturer_connect st name =
      st\<lparr>modules := modules st @ new, next_index := next_index st + length new\<rparr>"
    and "list_all (created_by_connect st name) new"
    unfolding capturer_connect_def by auto
  then show ?thesis
    by (intro exI [of _ new]) (auto simp: list_all_iff created_not_self_loop created_not_self_route)
qed

theorem capturer_connect_no_self_loop_witness:
  "list_all (\<lambda>src. no_space (src_name src)) (source_list fresh_server)
   \<and> monitor_source \<in> set (source_list fresh_server)
   \<and> src_name monitor_source = ''X'' @ ''.monitor''
   \<and> modules (capturer_connect fresh_server ''X'') = [sink_X, route_module 1 ''mic'' ''X'']
   \<and> created_by_connect fresh_server ''X'' (route_module 1 ''mic'' ''X'')
   \<and> mod_argument (route_module 1 ''mic'' ''X'') \<noteq> self_loop_argument ''X''
   \<and> \<not> is_route (''X'' @ ''.monitor'') ''X'' (route_module 1 ''mic'' ''X'')"
proof -
  have a: "monitor_source \<in> set (source_list fresh_server)" by code_simp
  have b: "src_name monitor_source = ''X'' @ ''.monitor''" by code_simp
  have c: "modules (capturer_connect fresh_server ''X'') = [sink_X, route_module 1 ''mic'' ''X'']"
    by code_simp
  have d: "modules fresh_server = [sink_X]" by code_simp
  have e: "list_all (\<lambda>src. no_space (src_name src)) (source_list fresh_server)" by code_simp
  from capturer_connect_no_self_loop [of fresh_server "''X''"] e obtain new where
    new: "capturer_connect fresh_server ''X'' =
      fresh_server\<lparr>modules := modules fresh_server @ new,
        next_index := next_index fresh_server + length new\<rparr>"
    and all: "list_all (\<lambda>m. created_by_connect fresh_server ''X'' m
        \<and> mod_argument m \<noteq> self_loop_argument ''X'') new"
    and nr: "list_all (\<lambda>m. \<not> is_route (''X'' @ ''.monitor'') ''X'' m) new"
    by blast
  from new c d have "new = [route_module 1 ''mic'' ''X'']" by simp
  with all nr a b c e show ?thesis by simp
qed

text \<open>
  C5 as stated fails for a source whose name has a space. The source
  \<^verbatim>\<open>X.monitor rate=1\<close> is not the monitor of \<^verbatim>\<open>X\<close>, so the pass loads a loopback module
  for it; the indexer reads that module as the route from \<^verbatim>\<open>X.monitor\<close> into \<^verbatim>\<open>X\<close>, and
  \<open>vsink_sources\<close> reports the monitor as routed into its own sink.
\<close>

theorem capturer_connect_space_counterexample:
  "src_name spaced_source \<noteq> ''X'' @ ''.monitor''
   \<and> modules (capturer_connect spaced_server ''X'') =
       [sink_X, route_module 1 ''X.monitor rate=1'' ''X'']
   \<and> is_route (''X'' @ ''.monitor'') ''X'' (route_module 1 ''X.monitor rate=1'' ''X'')
   \<and> py_keys (vsink_sources (capturer_connect spaced_server ''X'') ''X'') = [Some ''X.monitor'']"
  by code_simp

subsection \<open>C7: reporting the difference of two snapshots\<close>

lemma mset_set_minus:
  "distinct xs \<Longrightarrow> mset (set_minus xs ys) = mset_set (set xs - set ys)"
proof -
  assume "distinct xs"
  then have "distinct (set_minus xs ys)" by (simp add: set_minus_def)
  then have "mset_set (set (set_minus xs ys)) = mset (set_minus xs ys)" by (rule mset_set_set)
  moreover have "set (set_minus xs ys) = set xs - set ys" by (auto simp: set_minus_def)
  ultimately show ?thesis by simp
qed

lemma mset_map_set_minus:
  "distinct xs \<Longrightarrow> mset (map f (set_minus xs ys)) = image_mset f (mset_set (set xs - set ys))"
  using mset_set_minus [of xs ys] by (simp only: mset_map)

lemma deltaprint_mset:
  assumes "distinct (srcs c)" "distinct old_srcs" "distinct (apps c)" "distinct old_apps"
  shows "\<exists>new. capturer_deltaprint c old_srcs old_apps prefix = c\<lparr>stdout := stdout c @ new\<rparr>
    \<and> mset new =
        image_mset (\<lambda>src. prefix @ ''Connected source    '' @ py_str src)
          (mset_set (set (srcs c) - set old_srcs))
      + image_mset (\<lambda>src. prefix @ ''Disconnected source '' @ py_str src)
          (mset_set (set old_srcs - set (srcs c)))
      + image_mset (\<lambda>app. prefix @ ''Connected app       '' @ app)
          (mset_set (set (apps c) - set old_apps))
      + image_mset (\<lambda>app. prefix @ ''Disconnected app    '' @ app)
          (mset_set (set old_apps - set (apps c)))"
  using assms
  by (intro exI [of _ "map (\<lambda>src. prefix @ ''Connected source    '' @ py_str src) (set_minus (srcs c) old_srcs)
          @ map (\<lambda>src. prefix @ ''Disconnected source '' @ py_str src) (set_minus old_srcs (srcs c))
          @ map (\<lambda>app. prefix @ ''Connected app       '' @ app) (set_minus (apps c) old_apps)
          @ map (\<lambda>app. prefix @ ''Disconnected app    '' @ app) (set_minus old_apps (apps c))"])
    (simp add: capturer_deltaprint_def mset_map_set_minus del: mset_map)

text \<open>
  C7. With the new snapshot in \<^verbatim>\<open>self.srcs\<close> and \<^verbatim>\<open>self.apps\<close> and the previous one
  passed in, \<open>capturer_deltaprint\<close> only prints, and the lines it prints are, counted
  with multiplicity: one \<^verbatim>\<open>Connected source\<close> line for each source in the new
  snapshot and not in the old, one \<^verbatim>\<open>Disconnected source\<close> line for each source in
  the old and not in the new, and the same for the apps; nothing else. The snapshots
  are Python sets, that is lists without repetitions.
\<close>

theorem capturer_deltaprint_lines:
  assumes "distinct (srcs c)" "distinct old_srcs" "distinct (apps c)" "distinct old_apps"
  shows "\<exists>new. capturer_deltaprint c old_srcs old_apps prefix = c\<lparr>stdout := stdout c @ new\<rparr>
    \<and> mset new =
        image_mset (\<lambda>src. prefix @ ''Connected source    '' @ py_str src)
          (mset_set (set (srcs c) - set old_srcs))
      + image_mset (\<lambda>src. prefix @ ''Disconnected source '' @ py_str src)
          (mset_set (set old_srcs - set (srcs c)))
      + image_mset (\<lambda>app. prefix @ ''Connected app       '' @ app)
          (mset_set (set (apps c) - set old_apps))
      + image_mset (\<lambda>app. prefix @ ''Disconnected app    '' @ app)
          (mset_set (set old_apps - set (apps c)))"
  using assms by (rule deltaprint_mset)

theorem capturer_deltaprint_lines_witness:
  "distinct (srcs snapshot_capturer) \<and> distinct [Some ''mic'', Some ''usb'']
   \<and> distinct (apps snapshot_capturer) \<and> distinct [''Player'']
   \<and> stdout (capturer_deltaprint snapshot_capturer [Some ''mic'', Some ''usb''] [''Player''] ''  '') =
       [''  Connected source    line'', ''  Disconnected source usb'',
        ''  Connected app       Recorder'', ''  Disconnected app    Player'']"
proof -
  have a: "distinct (srcs snapshot_capturer)" "distinct [Some ''mic'', Some ''usb'']"
    "distinct (apps snapshot_capturer)" "distinct [''Player'']" by code_simp+
  have b: "stdout (capturer_deltaprint snapshot_capturer [Some ''mic'', Some ''usb''] [''Player''] ''  '') =
       [''  Connected source    line'', ''  Disconnected source usb'',
        ''  Connected app       Recorder'', ''  Disconnected app    Player'']" by code_simp
  from capturer_deltaprint_lines [OF a, of "''  ''"] a b show ?thesis by blast
qed

text \<open>
  \<open>capturer_refresh\<close> runs the connect pass, takes the new snapshot from the server and
  prints the difference to the snapshot it held; the snapshot it leaves is again
  without repetitions.
\<close>

lemma capturer_refresh_snapshot:
  "distinct (srcs (capturer_refresh c name)) \<and> distinct (apps (capturer_refresh c name))"
  by (simp add: capturer_refresh_def capturer_deltaprint_def Let_def py_set_def)

lemma capturer_refresh_lines:
  fixes c :: capturer and name :: string
  assumes "distinct (srcs c)" "distinct (apps c)"
  defines "st \<equiv> capturer_connect (server c) name"
  shows "\<exists>new. stdout (capturer_refresh c name) = stdout c @ new
    \<and> mset new =
        image_mset (\<lambda>src. ''  Connected source    '' @ py_str src)
          (mset_set (set (py_keys (vsink_sources st name)) - set (srcs c)))
      + image_mset (\<lambda>src. ''  Disconnected source '' @ py_str src)
          (mset_set (set (srcs c) - set (py_keys (vsink_sources st name))))
      + image_mset (\<lambda>app. ''  Connected app       '' @ app)
          (mset_set (set (py_keys (vsink_apps st name)) - set (apps c)))
      + image_mset (\<lambda>app. ''  Disconnected app    '' @ app)
          (mset_set (set (apps c) - set (py_keys (vsink_apps st name))))"
proof -
  let ?c3 = "c\<lparr>server := st, srcs := py_set (py_keys (vsink_sources st name)),
      apps := py_set (py_keys (vsink_apps st name))\<rparr>"
  have eq: "capturer_refresh c name = capturer_deltaprint ?c3 (srcs c) (apps c) ''  ''"
    by (simp add: capturer_refresh_def Let_def st_def)
  have "distinct (srcs ?c3)" "distinct (apps ?c3)" by (simp_all add: py_set_def)
  from deltaprint_mset [OF this(1) assms(1) this(2) assms(2), of "''  ''"]
  show ?thesis unfolding eq by (auto simp: py_set_def)
qed

subsection \<open>Invariants of the server state\<close>

text \<open>
  The two standing conditions are kept by the program: every command keeps the indices
  of the modules apart, and creating a route between names without spaces keeps the
  routes unique.
\<close>

lemma wf_module_load: "wf_pulse st \<Longrightarrow> wf_pulse (snd (module_load st kind args))"
  by (auto simp: wf_pulse_def distinct_indices_def module_load_def list_all_iff less_Suc_eq)

lemma wf_module_unload: "wf_pulse st \<Longrightarrow> wf_pulse (module_unload st i)"
  by (auto simp: wf_pulse_def distinct_indices_def module_unload_def list_all_iff
        distinct_map_filter)

lemma wf_vsink_add: "wf_pulse st \<Longrightarrow> wf_pulse (snd (vsink_add st name))"
  by (auto simp: vsink_add_def do_vsink_add_def wf_module_load split: option.splits)

lemma wf_loopback_add: "wf_pulse st \<Longrightarrow> wf_pulse (snd (loopback_add st source sink))"
  by (auto simp: loopback_add_def do_loopback_add_def wf_module_load split: option.splits)

lemma wf_foldl:
  assumes "\<And>s x. wf_pulse s \<Longrightarrow> wf_pulse (f s x)"
  shows "wf_pulse s \<Longrightarrow> wf_pulse (foldl f s xs)"
  by (induction xs arbitrary: s) (simp_all add: assms)

lemma wf_capturer_connect: "wf_pulse st \<Longrightarrow> wf_pulse (capturer_connect st name)"
  unfolding capturer_connect_def by (rule wf_foldl) (simp_all add: wf_loopback_add)

lemma wf_vsink_disconnect: "wf_pulse st \<Longrightarrow> wf_pulse (vsink_disconnect st sink)"
  by (auto simp: vsink_disconnect_eq wf_pulse_def distinct_indices_def list_all_iff
        distinct_map_filter)

lemma unique_routes_loopback_add:
  assumes "unique_routes_into st sink" "no_space source" "no_space sink"
  shows "unique_routes_into (snd (loopback_add st source sink)) sink"
proof (cases "py_get (loopback_dict st) (Some source, Some sink)")
  case (Some m)
  then show ?thesis using assms(1) by (simp add: loopback_add_def)
next
  case None
  let ?m = "\<lparr>mod_index = next_index st, mod_name = ''module-loopback'',
      mod_argument = ''source='' @ source @ '' sink='' @ sink\<rparr>"
  have new: "is_route source sink ?m" using assms(2,3) by (intro is_route_new) simp_all
  then have into: "is_route_into sink ?m" and pair: "route_pair ?m = (Some source, Some sink)"
    by (simp_all add: is_route_def is_route_into_def)
  have "(Some source, Some sink) \<notin> route_pair ` set (filter (is_route_into sink) (modules st))"
    using None loopback_dict_None_iff [of st source sink]
    by (auto simp: filter_empty_conv is_route_def is_route_into_def)
  then show ?thesis
    using None into pair assms(1)
    by (simp add: loopback_add_def do_loopback_add_def module_load_def unique_routes_into_def)
qed

lemma wf_distinct_indices: "wf_pulse st \<Longrightarrow> distinct_indices st"
  by (simp add: wf_pulse_def)

text \<open>
  The names in a dictionary built by a comprehension do not depend on the order in
  which the comprehension visits a set.
\<close>

lemma py_dict_keys_order:
  "set ys = set xs \<Longrightarrow> set (py_keys (py_dict (map f ys))) = set (py_keys (py_dict (map f xs)))"
  by (simp add: py_keys_def py_dict_keys_set)

end
